theory Spec2Isabelle
  imports Main
begin

section \<open>Values, strings and the display lookup (countryFlags.js)\<close>

text \<open>
  JavaScript strings are modelled as \<^typ>\<open>string\<close>: a list of bytes, the UTF-8 text of the
  source string. The country names of the table are ASCII; a flag emoji is a pair of
  regional-indicator symbols (U+1F1E6 for A up to U+1F1FF for Z), four bytes each, written
  here through \<open>flagEmoji\<close> from the two letters it shows. Strings are taken to be
  well-formed (no lone surrogate), so that a lead byte always starts a code point.

  A value that is \<open>null\<close> in the source is \<open>None\<close>. Timestamps (\<open>Date.now()\<close>,
  milliseconds, and the seconds of the rate-limit window) are unbounded integers.
\<close>

datatype jsval = JString string | JObject string

fun truthy :: "jsval \<Rightarrow> bool" where
  "truthy (JString s) = (s \<noteq> [])"
| "truthy (JObject n) = True"

definition regionalIndicator :: "char \<Rightarrow> string" where
  "regionalIndicator c =
     [CHR 0xF0, CHR 0x9F, CHR 0x87, char_of (0xA6 + ((of_char c :: nat) - 0x41))]"

definition flagEmoji :: "string \<Rightarrow> jsval" where
  "flagEmoji cc = JString (concat (map regionalIndicator cc))"

definition COUNTRY_FLAGS :: "(string \<times> jsval) list" where
  "COUNTRY_FLAGS = [
    (''Afghanistan'', flagEmoji ''AF''),
    (''Albania'', flagEmoji ''AL''),
    (''Algeria'', flagEmoji ''DZ''),
    (''Argentina'', flagEmoji ''AR''),
    (''Australia'', flagEmoji ''AU''),
    (''Austria'', flagEmoji ''AT''),
    (''Bangladesh'', flagEmoji ''BD''),
    (''Belgium'', flagEmoji ''BE''),
    (''Brazil'', flagEmoji ''BR''),
    (''Canada'', flagEmoji ''CA''),
    (''Chile'', flagEmoji ''CL''),
    (''China'', flagEmoji ''CN''),
    (''Colombia'', flagEmoji ''CO''),
    (''Czech Republic'', flagEmoji ''CZ''),
    (''Denmark'', flagEmoji ''DK''),
    (''Egypt'', flagEmoji ''EG''),
    (''Europe'', flagEmoji ''EU''),
    (''Finland'', flagEmoji ''FI''),
    (''France'', flagEmoji ''FR''),
    (''Germany'', flagEmoji ''DE''),
    (''Greece'', flagEmoji ''GR''),
    (''Guatemala'', flagEmoji ''GT''),
    (''Honduras'', flagEmoji ''HN''),
    (''Hong Kong'', flagEmoji ''HK''),
    (''Hungary'', flagEmoji ''HU''),
    (''Iceland'', flagEmoji ''IS''),
    (''India'', flagEmoji ''IN''),
    (''Indonesia'', flagEmoji ''ID''),
    (''Iran'', flagEmoji ''IR''),
    (''Iraq'', flagEmoji ''IQ''),
    (''Ireland'', flagEmoji ''IE''),
    (''Israel'', flagEmoji ''IL''),
    (''Italy'', flagEmoji ''IT''),
    (''Jamaica'', flagEmoji ''JM''),
    (''Japan'', flagEmoji ''JP''),
    (''Jordan'', flagEmoji ''JO''),
    (''Kenya'', flagEmoji ''KE''),
    (''Malaysia'', flagEmoji ''MY''),
    (''Morocco'', flagEmoji ''MA''),
    (''Mexico'', flagEmoji ''MX''),
    (''Netherlands'', flagEmoji ''NL''),
    (''New Zealand'', flagEmoji ''NZ''),
    (''Nigeria'', flagEmoji ''NG''),
    (''Norway'', flagEmoji ''NO''),
    (''Pakistan'', flagEmoji ''PK''),
    (''Panama'', flagEmoji ''PA''),
    (''Peru'', flagEmoji ''PE''),
    (''Philippines'', flagEmoji ''PH''),
    (''Poland'', flagEmoji ''PL''),
    (''Portugal'', flagEmoji ''PT''),
    (''Romania'', flagEmoji ''RO''),
    (''Russia'', flagEmoji ''RU''),
    (''Saudi Arabia'', flagEmoji ''SA''),
    (''Singapore'', flagEmoji ''SG''),
    (''South Africa'', flagEmoji ''ZA''),
    (''Korea'', flagEmoji ''KR''),
    (''South Korea'', flagEmoji ''KR''),
    (''Spain'', flagEmoji ''ES''),
    (''Sri Lanka'', flagEmoji ''LK''),
    (''Sweden'', flagEmoji ''SE''),
    (''Switzerland'', flagEmoji ''CH''),
    (''Taiwan'', flagEmoji ''TW''),
    (''Thailand'', flagEmoji ''TH''),
    (''Trinidad and Tobago'', flagEmoji ''TT''),
    (''Turkey'', flagEmoji ''TR''),
    (''Ukraine'', flagEmoji ''UA''),
    (''United Arab Emirates'', flagEmoji ''AE''),
    (''United Kingdom'', flagEmoji ''GB''),
    (''United States'', flagEmoji ''US''),
    (''Uruguay'', flagEmoji ''UY''),
    (''Venezuela'', flagEmoji ''VE''),
    (''Vietnam'', flagEmoji ''VN'')]"

definition lowerChar :: "char \<Rightarrow> char" where
  "lowerChar c =
     (if (0x41::nat) \<le> of_char c \<and> (of_char c :: nat) \<le> 0x5A
      then char_of ((of_char c :: nat) + 0x20) else c)"

text \<open>
  \<open>String.prototype.toLowerCase\<close>. The code points whose lower case is ASCII are the
  letters A to Z and U+212A KELVIN SIGN (bytes E2 84 AA), which becomes \<open>k\<close>; these are
  mapped. Any other code point is left as it is: its lower case lies outside ASCII as
  well, so with or without the mapping the string equals no name the lookup below knows,
  all of which are ASCII.
\<close>

fun toLowerCase :: "string \<Rightarrow> string" where
  "toLowerCase (c1 # c2 # c3 # s) =
     (if c1 = CHR 0xE2 \<and> c2 = CHR 0x84 \<and> c3 = CHR 0xAA then CHR ''k'' # toLowerCase s
      else lowerChar c1 # toLowerCase (c2 # c3 # s))"
| "toLowerCase (c # s) = lowerChar c # toLowerCase s"
| "toLowerCase [] = []"

text \<open>
  \<open>String.prototype.trim\<close> removes the WhiteSpace and LineTerminator code points from
  both ends: U+0009 to U+000D, U+0020, U+00A0, U+1680, U+2000 to U+200A, U+2028, U+2029,
  U+202F, U+205F, U+3000 and U+FEFF, listed here by their bytes.
\<close>

definition whiteSpaceCodes :: "string list" where
  "whiteSpaceCodes =
     [[CHR 0x09], [CHR 0x0A], [CHR 0x0B], [CHR 0x0C], [CHR 0x0D], [CHR 0x20],
      [CHR 0xC2, CHR 0xA0],
      [CHR 0xE1, CHR 0x9A, CHR 0x80],
      [CHR 0xE2, CHR 0x80, CHR 0x80], [CHR 0xE2, CHR 0x80, CHR 0x81],
      [CHR 0xE2, CHR 0x80, CHR 0x82], [CHR 0xE2, CHR 0x80, CHR 0x83],
      [CHR 0xE2, CHR 0x80, CHR 0x84], [CHR 0xE2, CHR 0x80, CHR 0x85],
      [CHR 0xE2, CHR 0x80, CHR 0x86], [CHR 0xE2, CHR 0x80, CHR 0x87],
      [CHR 0xE2, CHR 0x80, CHR 0x88], [CHR 0xE2, CHR 0x80, CHR 0x89],
      [CHR 0xE2, CHR 0x80, CHR 0x8A],
      [CHR 0xE2, CHR 0x80, CHR 0xA8], [CHR 0xE2, CHR 0x80, CHR 0xA9],
      [CHR 0xE2, CHR 0x80, CHR 0xAF],
      [CHR 0xE2, CHR 0x81, CHR 0x9F],
      [CHR 0xE3, CHR 0x80, CHR 0x80],
      [CHR 0xEF, CHR 0xBB, CHR 0xBF]]"

definition startsWith :: "string \<Rightarrow> string \<Rightarrow> bool" where
  "startsWith w s = (w \<noteq> [] \<and> take (length w) s = w)"

text \<open>Drop from the front of \<open>s\<close>, as long as there is one, a leading member of \<open>ws\<close>.\<close>

function stripLeading :: "string list \<Rightarrow> string \<Rightarrow> string" where
  "stripLeading ws s =
     (case List.find (\<lambda>w. startsWith w s) ws of
        None \<Rightarrow> s
      | Some w \<Rightarrow> stripLeading ws (drop (length w) s))"
  by pat_completeness auto
termination
proof (relation "measure (\<lambda>(ws, s). length s)")
  show "wf (measure (\<lambda>(ws, s). length s))" by simp
next
  fix ws :: "string list" and s w :: string
  assume "List.find (\<lambda>w. startsWith w s) ws = Some w"
  then have "startsWith w s" by (auto simp add: find_Some_iff)
  then have w: "w \<noteq> []" "take (length w) s = w" by (simp_all add: startsWith_def)
  define n where "n = length w"
  have pos: "0 < n" using w(1) by (simp add: n_def)
  have "length (take n s) = n" using w(2) by (simp add: n_def)
  then have le: "n \<le> length s" by simp
  have "length (drop n s) < length s" using pos le by simp
  then show "((ws, drop (length w) s), (ws, s)) \<in> measure (\<lambda>(ws, s). length s)"
    by (simp add: n_def)
qed

definition trim :: "string \<Rightarrow> string" where
  "trim s = rev (stripLeading (map rev whiteSpaceCodes) (rev (stripLeading whiteSpaceCodes s)))"

text \<open>
  \<open>COUNTRY_FLAGS_LOWER\<close> is filled by a loop over the entries of \<open>COUNTRY_FLAGS\<close>, a later
  entry overwriting an earlier one with the same lower-cased name.
\<close>

definition COUNTRY_FLAGS_LOWER :: "string \<rightharpoonup> jsval" where
  "COUNTRY_FLAGS_LOWER =
     fold (\<lambda>(country, flag) m. m(toLowerCase country \<mapsto> flag)) COUNTRY_FLAGS Map.empty"

text \<open>
  \<open>COUNTRY_FLAGS_LOWER[normalized]\<close> is a property read on a plain object: a name the object
  does not own is looked up on \<open>Object.prototype\<close>. The only names of \<open>Object.prototype\<close>
  a lower-cased string can equal are \<open>constructor\<close> and \<open>__proto__\<close>; both give an object.
\<close>

definition propertyRead :: "string \<Rightarrow> jsval option" where
  "propertyRead name =
     (case COUNTRY_FLAGS_LOWER name of
        Some v \<Rightarrow> Some v
      | None \<Rightarrow>
          if name = ''constructor'' then Some (JObject ''Object'')
          else if name = ''__proto__'' then Some (JObject ''Object.prototype'')
          else None)"

definition getCountryFlag :: "string option \<Rightarrow> jsval option" where
  "getCountryFlag countryName =
     (case countryName of
        None \<Rightarrow> None
      | Some name \<Rightarrow>
          if name = [] then None
          else (case propertyRead (toLowerCase (trim name)) of
                  None \<Rightarrow> None
                | Some v \<Rightarrow> if truthy v then Some v else None))"

section \<open>The resolution result and the cache entry (content.js)\<close>

record LocationInfo =
  location :: "string option"
  flag :: "jsval option"
  displayText :: "jsval option"

definition emptyInfo :: LocationInfo where
  "emptyInfo = \<lparr>location = None, flag = None, displayText = None\<rparr>"

definition createLocationInfo :: "string option \<Rightarrow> LocationInfo" where
  "createLocationInfo loc =
     (case loc of
        None \<Rightarrow> emptyInfo
      | Some l \<Rightarrow>
          if l = [] then emptyInfo
          else (let fl = getCountryFlag (Some l)
                in \<lparr>location = Some l, flag = fl,
                    displayText =
                      (case fl of Some f \<Rightarrow> Some f
                       | None \<Rightarrow> Some (JString (''('' @ l @ '')'')))\<rparr>))"

definition CACHE_EXPIRY_DAYS :: int where "CACHE_EXPIRY_DAYS = 30"
definition NULL_CACHE_EXPIRY_DAYS :: int where "NULL_CACHE_EXPIRY_DAYS = 1"

definition calculateExpiry :: "string option \<Rightarrow> int \<Rightarrow> int" where
  "calculateExpiry loc now =
     (let days = (if loc = None then NULL_CACHE_EXPIRY_DAYS else CACHE_EXPIRY_DAYS)
      in now + days * 24 * 60 * 60 * 1000)"


section \<open>Module state (content.js)\<close>

text \<open>
  A promise is pending until its first settlement; later calls of its \<open>resolve\<close> or
  \<open>reject\<close> change nothing.
\<close>

datatype 'a promise = Pending | Resolved 'a | Rejected string

fun resolvePromise :: "'a \<Rightarrow> 'a promise \<Rightarrow> 'a promise" where
  "resolvePromise v Pending = Resolved v"
| "resolvePromise v p = p"

fun rejectPromise :: "string \<Rightarrow> 'a promise \<Rightarrow> 'a promise" where
  "rejectPromise e Pending = Rejected e"
| "rejectPromise e p = p"

record cache_entry =
  cachedLocation :: "string option"
  expiry :: int
  cachedAt :: "int option"

text \<open>
  One call of \<open>makeLocationRequest\<close>: the screen name it asks for, whether its message
  handler is still registered, and the promise it returned. Its \<open>requestId\<close> is its index
  in \<open>requests\<close>; each call posts one \<open>__fetchLocation\<close> message, so \<open>requests\<close> is also the
  log of remote dispatches.
\<close>

record request =
  reqScreenName :: string
  listening :: bool
  outcome :: "string option promise"

text \<open>The callbacks handed to \<open>setTimeout\<close>, logged with their delay in milliseconds.\<close>

datatype callback = ProcessRequestQueueCB | PacingCB | RequestTimeoutCB nat

text \<open>
  Where the one running \<open>processRequestQueue\<close> is suspended: not at all, at the pacing
  \<open>await\<close>, or at \<open>await makeLocationRequest(screenName)\<close> holding the task taken from the
  queue (its screen name and its promise) and the request made for it.
\<close>

datatype drain = NotSuspended | AwaitPacing | AwaitRequest string nat nat

text \<open>
  A queued task \<open>{ screenName, resolve, reject }\<close> is its screen name and the index in
  \<open>promises\<close> of the \<open>locationPromise\<close> its two callbacks settle.
\<close>

record state =
  locationCache :: "string \<rightharpoonup> cache_entry"
  locationStats :: "string \<rightharpoonup> string set"
  requestQueue :: "(string \<times> nat) list"
  isProcessingQueue :: bool
  lastRequestTime :: int
  activeRequests :: int
  rateLimitResetTime :: int
  consecutiveRateLimits :: nat
  pendingLocationRequests :: "string \<rightharpoonup> nat"
  promises :: "string option promise list"
  requests :: "request list"
  timers :: "(int \<times> callback) list"
  drainState :: drain

definition initialState :: state where
  "initialState =
     \<lparr>locationCache = Map.empty, locationStats = Map.empty, requestQueue = [],
      isProcessingQueue = False, lastRequestTime = 0, activeRequests = 0,
      rateLimitResetTime = 0, consecutiveRateLimits = 0,
      pendingLocationRequests = Map.empty, promises = [], requests = [], timers = [],
      drainState = NotSuspended\<rparr>"

definition MIN_REQUEST_INTERVAL :: int where "MIN_REQUEST_INTERVAL = 3500"
definition MAX_CONCURRENT_REQUESTS :: int where "MAX_CONCURRENT_REQUESTS = 1"
definition MAX_QUEUE_SIZE :: nat where "MAX_QUEUE_SIZE = 50"
definition BASE_BACKOFF_MINUTES :: int where "BASE_BACKOFF_MINUTES = 5"
definition REQUEST_TIMEOUT :: int where "REQUEST_TIMEOUT = 10000"

section \<open>Statistics and the cache\<close>

definition updateStats :: "string \<Rightarrow> string \<Rightarrow> state \<Rightarrow> state" where
  "updateStats username loc s =
     (if loc = [] then s
      else (let usernames = (case locationStats s loc of None \<Rightarrow> {} | Some u \<Rightarrow> u)
            in s\<lparr>locationStats := (locationStats s)(loc \<mapsto> insert username usernames)\<rparr>))"

text \<open>
  \<open>valid\<close> is what \<open>isExtensionContextValid()\<close> answers at the call. The debounced write to
  persistent storage that \<open>saveCacheEntry\<close> schedules reads the state and changes none of
  the fields modelled here.
\<close>

definition saveCacheEntry :: "bool \<Rightarrow> string \<Rightarrow> string option \<Rightarrow> int \<Rightarrow> state \<Rightarrow> state" where
  "saveCacheEntry valid username loc now s =
     (if \<not> valid then s
      else (let s1 = s\<lparr>locationCache := (locationCache s)(username \<mapsto>
                        \<lparr>cachedLocation = loc, expiry = calculateExpiry loc now,
                         cachedAt = Some now\<rparr>)\<rparr>
            in (case loc of None \<Rightarrow> s1 | Some l \<Rightarrow> updateStats username l s1)))"

text \<open>
  The body of the loop of \<open>loadCache\<close> for one persisted entry \<open>(username, location,
  expiry)\<close>, and the loop over the persisted object. \<open>data.expiry && data.expiry > now\<close>
  fails on an expiry of \<open>0\<close>.
\<close>

definition loadEntry :: "int \<Rightarrow> string \<times> string option \<times> int \<Rightarrow> state \<Rightarrow> state" where
  "loadEntry now e s =
     (case e of (username, loc, exp) \<Rightarrow>
        if exp \<noteq> 0 \<and> exp > now then
          (let s1 = s\<lparr>locationCache := (locationCache s)(username \<mapsto>
                        \<lparr>cachedLocation = loc, expiry = exp, cachedAt = None\<rparr>)\<rparr>
           in (case loc of
                 None \<Rightarrow> s1
               | Some l \<Rightarrow>
                   (let usernames = (case locationStats s1 l of None \<Rightarrow> {} | Some u \<Rightarrow> u)
                    in s1\<lparr>locationStats := (locationStats s1)(l \<mapsto> insert username usernames)\<rparr>)))
        else s)"

definition loadCache :: "(string \<times> string option \<times> int) list \<Rightarrow> int \<Rightarrow> state \<Rightarrow> state" where
  "loadCache cached now s = fold (loadEntry now) cached s"

definition resetStats :: "state \<Rightarrow> state" where
  "resetStats s = s\<lparr>locationStats := Map.empty\<rparr>"

text \<open>The cache check that opens \<open>getLocation\<close>: a hit, or a miss that evicts an expired entry.\<close>

definition cacheCheck :: "string \<Rightarrow> int \<Rightarrow> state \<Rightarrow> LocationInfo option \<times> state" where
  "cacheCheck screenName now s =
     (case locationCache s screenName of
        None \<Rightarrow> (None, s)
      | Some cached \<Rightarrow>
          if expiry cached \<noteq> 0 \<and> expiry cached > now
          then (Some (createLocationInfo (cachedLocation cached)), s)
          else (None, s\<lparr>locationCache := (locationCache s)(screenName := None)\<rparr>))"

text \<open>The aggregator's count for a value: the size of its set of user names.\<close>

definition statsCount :: "state \<Rightarrow> string \<Rightarrow> nat" where
  "statsCount s v = (case locationStats s v of None \<Rightarrow> 0 | Some u \<Rightarrow> card u)"

section \<open>Rate limiting and the request queue\<close>

text \<open>The listener for \<open>__rateLimitInfo\<close> messages; \<open>resetTime\<close> is \<open>event.data.resetTime\<close>.\<close>

definition onRateLimitInfo :: "int \<Rightarrow> int \<Rightarrow> state \<Rightarrow> state" where
  "onRateLimitInfo resetTime now s =
     (let c = consecutiveRateLimits s + 1;
          baseWaitMinutes = BASE_BACKOFF_MINUTES * 2 ^ (c - 1);
          exponentialWaitSeconds = baseWaitMinutes * 60;
          apiResetTime = resetTime;
          exponentialResetTime = now div 1000 + exponentialWaitSeconds
      in s\<lparr>consecutiveRateLimits := c,
            rateLimitResetTime := max apiResetTime exponentialResetTime\<rparr>)"

definition isRateLimited :: "int \<Rightarrow> state \<Rightarrow> bool" where
  "isRateLimited now s =
     (if rateLimitResetTime s = 0 then False else now div 1000 < rateLimitResetTime s)"

definition resetRateLimit :: "state \<Rightarrow> state" where
  "resetRateLimit s = s\<lparr>rateLimitResetTime := 0, consecutiveRateLimits := 0\<rparr>"

text \<open>
  The \<open>resolve\<close> and \<open>reject\<close> callbacks \<open>getLocation\<close> puts in a task: both first delete the
  screen name from \<open>pendingLocationRequests\<close>, then settle the task's promise.
\<close>

definition taskResolve :: "string \<Rightarrow> nat \<Rightarrow> string option \<Rightarrow> state \<Rightarrow> state" where
  "taskResolve screenName pid loc s =
     s\<lparr>pendingLocationRequests := (pendingLocationRequests s)(screenName := None),
       promises := (promises s)[pid := resolvePromise loc (promises s ! pid)]\<rparr>"

definition taskReject :: "string \<Rightarrow> nat \<Rightarrow> string \<Rightarrow> state \<Rightarrow> state" where
  "taskReject screenName pid err s =
     s\<lparr>pendingLocationRequests := (pendingLocationRequests s)(screenName := None),
       promises := (promises s)[pid := rejectPromise err (promises s ! pid)]\<rparr>"

text \<open>\<open>while (requestQueue.length > 0) requestQueue.shift().reject(new Error('Rate limited'))\<close>\<close>

fun rejectAll :: "(string \<times> nat) list \<Rightarrow> state \<Rightarrow> state" where
  "rejectAll [] s = s"
| "rejectAll ((screenName, pid) # rest) s =
     rejectAll rest (taskReject screenName pid ''Rate limited'' s)"

text \<open>
  \<open>makeLocationRequest\<close> up to its return: it registers the message handler, posts the
  \<open>__fetchLocation\<close> message and arms the timeout. It returns the index of the new request.
\<close>

definition makeLocationRequest :: "string \<Rightarrow> state \<Rightarrow> nat \<times> state" where
  "makeLocationRequest screenName s =
     (let rid = length (requests s)
      in (rid, s\<lparr>requests := requests s @
                     [\<lparr>reqScreenName = screenName, listening = True, outcome = Pending\<rparr>],
                  timers := timers s @ [(REQUEST_TIMEOUT, RequestTimeoutCB rid)]\<rparr>))"

text \<open>
  The body of the \<open>while\<close> loop after the pacing wait: take the head task and make its
  request, then suspend at the \<open>await\<close>. On an empty queue the destructuring of
  \<open>requestQueue.shift()\<close> throws, which ends \<open>processRequestQueue\<close> with
  \<open>isProcessingQueue\<close> still set.
\<close>

definition dispatch :: "int \<Rightarrow> state \<Rightarrow> state" where
  "dispatch now s =
     (case requestQueue s of
        [] \<Rightarrow> s\<lparr>drainState := NotSuspended\<rparr>
      | (screenName, pid) # rest \<Rightarrow>
          (let s1 = s\<lparr>requestQueue := rest, activeRequests := activeRequests s + 1,
                      lastRequestTime := now\<rparr>;
               (rid, s2) = makeLocationRequest screenName s1
           in s2\<lparr>drainState := AwaitRequest screenName pid rid\<rparr>))"

text \<open>The head of the \<open>while\<close> loop, up to the next \<open>await\<close> or the end of the function.\<close>

definition drainLoop :: "int \<Rightarrow> state \<Rightarrow> state" where
  "drainLoop now s =
     (if requestQueue s \<noteq> [] \<and> activeRequests s < MAX_CONCURRENT_REQUESTS then
        (let timeSinceLastRequest = now - lastRequestTime s
         in if timeSinceLastRequest < MIN_REQUEST_INTERVAL
            then s\<lparr>drainState := AwaitPacing,
                   timers := timers s @ [(MIN_REQUEST_INTERVAL - timeSinceLastRequest, PacingCB)]\<rparr>
            else dispatch now s)
      else s\<lparr>isProcessingQueue := False, drainState := NotSuspended\<rparr>)"

text \<open>A call of \<open>processRequestQueue\<close>, up to its first \<open>await\<close> or its return.\<close>

definition processRequestQueue :: "int \<Rightarrow> state \<Rightarrow> state" where
  "processRequestQueue now s =
     (if isProcessingQueue s \<or> requestQueue s = [] then s
      else if isRateLimited now s then
        (let waitTime = (rateLimitResetTime s - now div 1000) * 1000;
             s1 = (rejectAll (requestQueue s) s)\<lparr>requestQueue := []\<rparr>
         in s1\<lparr>timers := timers s1 @ [(min waitTime 60000, ProcessRequestQueueCB)]\<rparr>)
      else
        (let s1 = (if rateLimitResetTime s > 0 then resetRateLimit s else s);
             s2 = s1\<lparr>isProcessingQueue := True\<rparr>
         in drainLoop now s2))"

text \<open>\<open>location || null\<close>: the empty string becomes \<open>null\<close>.\<close>

definition orNull :: "string option \<Rightarrow> string option" where
  "orNull loc = (case loc of None \<Rightarrow> None | Some l \<Rightarrow> if l = [] then None else Some l)"

text \<open>
  The message handler of request \<open>rid\<close> on its \<open>__locationResponse\<close> message, carrying
  \<open>event.data.location\<close> and \<open>event.data.isRateLimited || false\<close>. A handler that was
  removed does not run.
\<close>

definition onLocationResponse ::
  "nat \<Rightarrow> string option \<Rightarrow> bool \<Rightarrow> int \<Rightarrow> bool \<Rightarrow> state \<Rightarrow> state" where
  "onLocationResponse rid loc rateLimited now valid s =
     (if rid < length (requests s) \<and> listening (requests s ! rid) then
        (let r = requests s ! rid;
             s1 = s\<lparr>requests := (requests s)[rid := r\<lparr>listening := False\<rparr>]\<rparr>;
             s2 = (if \<not> rateLimited then saveCacheEntry valid (reqScreenName r) (orNull loc) now s1
                   else s1);
             r2 = requests s2 ! rid
         in s2\<lparr>requests := (requests s2)[rid := r2\<lparr>outcome := resolvePromise (orNull loc) (outcome r2)\<rparr>]\<rparr>)
      else s)"

text \<open>The timeout callback of request \<open>rid\<close>; the timer is never cleared, so it always runs.\<close>

definition onRequestTimeout :: "nat \<Rightarrow> state \<Rightarrow> state" where
  "onRequestTimeout rid s =
     (if rid < length (requests s) then
        (let r = requests s ! rid
         in s\<lparr>requests := (requests s)[rid := r\<lparr>listening := False,
                                                   outcome := resolvePromise None (outcome r)\<rparr>],
              pendingLocationRequests := (pendingLocationRequests s)(reqScreenName r := None)\<rparr>)
      else s)"

text \<open>
  \<open>processRequestQueue\<close> resumed after \<open>await makeLocationRequest(screenName)\<close>: the
  \<open>try\<close>, \<open>catch\<close> and \<open>finally\<close> blocks, then the head of the loop again.
\<close>

definition resumeAfterRequest :: "int \<Rightarrow> state \<Rightarrow> state" where
  "resumeAfterRequest now s =
     (case drainState s of
        AwaitRequest screenName pid rid \<Rightarrow>
          (if rid < length (requests s) then
             (case outcome (requests s ! rid) of
                Pending \<Rightarrow> s
              | Resolved loc \<Rightarrow>
                  (let s1 = (if consecutiveRateLimits s > 0 then s\<lparr>consecutiveRateLimits := 0\<rparr> else s);
                       s2 = taskResolve screenName pid loc s1;
                       s3 = s2\<lparr>activeRequests := activeRequests s2 - 1,
                               timers := timers s2 @ [(200, ProcessRequestQueueCB)]\<rparr>
                   in drainLoop now s3)
              | Rejected err \<Rightarrow>
                  (let s2 = taskReject screenName pid err s;
                       s3 = s2\<lparr>activeRequests := activeRequests s2 - 1,
                               timers := timers s2 @ [(200, ProcessRequestQueueCB)]\<rparr>
                   in drainLoop now s3))
           else s)
      | _ \<Rightarrow> s)"

text \<open>\<open>processRequestQueue\<close> resumed after the pacing wait.\<close>

definition resumeAfterPacing :: "int \<Rightarrow> state \<Rightarrow> state" where
  "resumeAfterPacing now s = (case drainState s of AwaitPacing \<Rightarrow> dispatch now s | _ \<Rightarrow> s)"

section \<open>The resolution facade\<close>

text \<open>
  \<open>getLocation\<close> up to its first \<open>await\<close>: it returns, or it awaits the promise registered
  by an earlier call, or it awaits the promise it has just created and registered.
\<close>

datatype getLocationResult = Return LocationInfo | AwaitPending nat | AwaitOwn nat

definition getLocation :: "string \<Rightarrow> int \<Rightarrow> state \<Rightarrow> getLocationResult \<times> state" where
  "getLocation screenName now s =
     (case cacheCheck screenName now s of
        (Some info, s1) \<Rightarrow> (Return info, s1)
      | (None, s1) \<Rightarrow>
          (case pendingLocationRequests s1 screenName of
             Some pid \<Rightarrow> (AwaitPending pid, s1)
           | None \<Rightarrow>
               if length (requestQueue s1) \<ge> MAX_QUEUE_SIZE then (Return emptyInfo, s1)
               else
                 (let pid = length (promises s1);
                      s2 = s1\<lparr>promises := promises s1 @ [Pending],
                              requestQueue := requestQueue s1 @ [(screenName, pid)]\<rparr>;
                      s3 = processRequestQueue now s2;
                      s4 = s3\<lparr>pendingLocationRequests :=
                                (pendingLocationRequests s3)(screenName \<mapsto> pid)\<rparr>
                  in (AwaitOwn pid, s4))))"

text \<open>
  \<open>getLocation\<close> resumed after its \<open>await\<close>, once the awaited promise is settled: \<open>Inr\<close> the
  value it returns, \<open>Inl\<close> the error it throws; \<open>None\<close> while the promise is pending.
\<close>

definition afterAwaitPending ::
  "string \<Rightarrow> nat \<Rightarrow> int \<Rightarrow> state \<Rightarrow> (string + LocationInfo) option" where
  "afterAwaitPending screenName pid now s =
     (if pid < length (promises s) then
        (case promises s ! pid of
           Pending \<Rightarrow> None
         | Rejected err \<Rightarrow> Some (Inl err)
         | Resolved loc \<Rightarrow>
             (case locationCache s screenName of
                Some cached \<Rightarrow>
                  if expiry cached \<noteq> 0 \<and> expiry cached > now
                  then Some (Inr (createLocationInfo (cachedLocation cached)))
                  else Some (Inr (createLocationInfo loc))
              | None \<Rightarrow> Some (Inr (createLocationInfo loc))))
      else None)"

definition afterAwaitOwn :: "nat \<Rightarrow> state \<Rightarrow> (string + LocationInfo) option" where
  "afterAwaitOwn pid s =
     (if pid < length (promises s) then
        (case promises s ! pid of
           Pending \<Rightarrow> None
         | Rejected err \<Rightarrow> Some (Inl err)
         | Resolved loc \<Rightarrow> Some (Inr (createLocationInfo loc)))
      else None)"

section \<open>Runs of the module\<close>

text \<open>
  Everything that runs between two suspension points is one event: a call of
  \<open>getLocation\<close>, a message from the page script, a timer, or the resumption of the
  suspended \<open>processRequestQueue\<close>. Each carries what it reads from its environment:
  \<open>Date.now()\<close> and, for the response handler, \<open>isExtensionContextValid()\<close>.
\<close>

datatype event =
    GetLocation string int
  | RateLimitInfo int int
  | LocationResponse nat "string option" bool int bool
  | RequestTimeout nat
  | RequestSettled int
  | PacingElapsed int
  | ProcessQueueTimer int
  | LoadCache "(string \<times> string option \<times> int) list" int
  | ResetStats

fun step :: "event \<Rightarrow> state \<Rightarrow> state" where
  "step (GetLocation screenName now) s = snd (getLocation screenName now s)"
| "step (RateLimitInfo resetTime now) s = onRateLimitInfo resetTime now s"
| "step (LocationResponse rid loc rateLimited now valid) s =
     onLocationResponse rid loc rateLimited now valid s"
| "step (RequestTimeout rid) s = onRequestTimeout rid s"
| "step (RequestSettled now) s = resumeAfterRequest now s"
| "step (PacingElapsed now) s = resumeAfterPacing now s"
| "step (ProcessQueueTimer now) s = processRequestQueue now s"
| "step (LoadCache cached now) s = loadCache cached now s"
| "step ResetStats s = resetStats s"

definition run :: "event list \<Rightarrow> state \<Rightarrow> state" where
  "run es s = fold step es s"

section \<open>Notions the properties are stated with\<close>



fun reportedOf :: "event \<Rightarrow> int option" where
  "reportedOf (RateLimitInfo resetTime now) = Some resetTime"
| "reportedOf ev = None"




fun windowTrace :: "event list \<Rightarrow> state \<Rightarrow> int list" where
  "windowTrace [] s = []"
| "windowTrace (ev # es) s =
     (case reportedOf ev of
        Some resetTime \<Rightarrow> rateLimitResetTime (step ev s) # windowTrace es (step ev s)
      | None \<Rightarrow> windowTrace es (step ev s))"

text \<open>
  The keys whose cache entry holds the value \<open>v\<close>, and those among them whose entry is
  unexpired at \<open>now\<close>.
\<close>

definition holders :: "state \<Rightarrow> string \<Rightarrow> string set" where
  "holders s v = {k. \<exists>e. locationCache s k = Some e \<and> cachedLocation e = Some v}"

definition liveHolders :: "state \<Rightarrow> int \<Rightarrow> string \<Rightarrow> string set" where
  "liveHolders s now v =
     {k. \<exists>e. locationCache s k = Some e \<and> cachedLocation e = Some v \<and>
              expiry e \<noteq> 0 \<and> expiry e > now}"

text \<open>
  The aggregator's sets are finite, and every key whose cache entry holds a non-empty
  value is in the aggregator's set for that value.
\<close>

definition statsCover :: "state \<Rightarrow> bool" where
  "statsCover s =
     ((\<forall>v u. locationStats s v = Some u \<longrightarrow> finite u) \<and>
      (\<forall>k e v. locationCache s k = Some e \<and> cachedLocation e = Some v \<and> v \<noteq> [] \<longrightarrow>
         (\<exists>u. locationStats s v = Some u \<and> k \<in> u)))"

text \<open>No promise returned by \<open>makeLocationRequest\<close> is rejected.\<close>

definition noRequestRejected :: "state \<Rightarrow> bool" where
  "noRequestRejected s = (\<forall>r \<in> set (requests s). \<forall>e. outcome r \<noteq> Rejected e)"

text \<open>
  States used as concrete inputs: one task queued while a rate-limit window is open
  until second 2000 and no \<open>processRequestQueue\<close> is running; and a full queue behind a
  running \<open>processRequestQueue\<close>.
\<close>

definition limitedState :: state where
  "limitedState =
     initialState\<lparr>requestQueue := [(''alice'', 0)], promises := [Pending],
                  pendingLocationRequests := [''alice'' \<mapsto> 0],
                  rateLimitResetTime := 2000, consecutiveRateLimits := 1\<rparr>"

definition fullState :: state where
  "fullState =
     initialState\<lparr>requestQueue := replicate 50 (''bob'', 0), promises := [Pending],
                  pendingLocationRequests := [''bob'' \<mapsto> 0],
                  isProcessingQueue := True, drainState := AwaitPacing\<rparr>"

text \<open>
  The key \<open>K\<close> is registered with a promise that is already rejected, while no queued
  task, no request and no cache entry is about \<open>K\<close>.
\<close>

definition stuck :: "string \<Rightarrow> nat \<Rightarrow> state \<Rightarrow> bool" where
  "stuck K p s =
     (pendingLocationRequests s K = Some p \<and>
      p < length (promises s) \<and> (\<exists>e. promises s ! p = Rejected e) \<and>
      K \<notin> fst ` set (requestQueue s) \<and>
      K \<notin> reqScreenName ` set (requests s) \<and>
      (case drainState s of AwaitRequest k q r \<Rightarrow> k \<noteq> K | _ \<Rightarrow> True) \<and>
      locationCache s K = None)"

section \<open>Evaluation of concrete runs\<close>

lemmas exec_simps =
  run_def getLocation_def cacheCheck_def processRequestQueue_def drainLoop_def dispatch_def
  makeLocationRequest_def isRateLimited_def resetRateLimit_def onRateLimitInfo_def
  onLocationResponse_def onRequestTimeout_def resumeAfterRequest_def resumeAfterPacing_def
  taskResolve_def taskReject_def saveCacheEntry_def updateStats_def orNull_def
  calculateExpiry_def initialState_def Let_def
  MAX_QUEUE_SIZE_def MAX_CONCURRENT_REQUESTS_def MIN_REQUEST_INTERVAL_def
  BASE_BACKOFF_MINUTES_def REQUEST_TIMEOUT_def CACHE_EXPIRY_DAYS_def NULL_CACHE_EXPIRY_DAYS_def

lemma lowerChar_upper:
  "lowerChar CHR ''A'' = CHR ''a''" "lowerChar CHR ''B'' = CHR ''b''" "lowerChar CHR ''C'' = CHR ''c''"
  "lowerChar CHR ''D'' = CHR ''d''" "lowerChar CHR ''E'' = CHR ''e''" "lowerChar CHR ''F'' = CHR ''f''"
  "lowerChar CHR ''G'' = CHR ''g''" "lowerChar CHR ''H'' = CHR ''h''" "lowerChar CHR ''I'' = CHR ''i''"
  "lowerChar CHR ''J'' = CHR ''j''" "lowerChar CHR ''K'' = CHR ''k''" "lowerChar CHR ''L'' = CHR ''l''"
  "lowerChar CHR ''M'' = CHR ''m''" "lowerChar CHR ''N'' = CHR ''n''" "lowerChar CHR ''O'' = CHR ''o''"
  "lowerChar CHR ''P'' = CHR ''p''" "lowerChar CHR ''Q'' = CHR ''q''" "lowerChar CHR ''R'' = CHR ''r''"
  "lowerChar CHR ''S'' = CHR ''s''" "lowerChar CHR ''T'' = CHR ''t''" "lowerChar CHR ''U'' = CHR ''u''"
  "lowerChar CHR ''V'' = CHR ''v''" "lowerChar CHR ''W'' = CHR ''w''" "lowerChar CHR ''X'' = CHR ''x''"
  "lowerChar CHR ''Y'' = CHR ''y''" "lowerChar CHR ''Z'' = CHR ''z''"
  by code_simp+

lemma lowerChar_other:
  "\<not> ((0x41::nat) \<le> of_char c \<and> (of_char c :: nat) \<le> 0x5A) \<Longrightarrow> lowerChar c = c"
  unfolding lowerChar_def by (rule if_not_P)

lemma truthy_flagEmoji: "truthy (flagEmoji cc) = (cc \<noteq> [])"
  by (cases cc) (simp_all add: flagEmoji_def regionalIndicator_def)

lemmas lookup_simps = getCountryFlag_def propertyRead_def COUNTRY_FLAGS_LOWER_def
  COUNTRY_FLAGS_def lowerChar_upper lowerChar_other trim_def stripLeading.simps
  whiteSpaceCodes_def startsWith_def truthy_flagEmoji

lemma getCountryFlag_France: "getCountryFlag (Some ''France'') = Some (flagEmoji ''FR'')"
  by (simp add: lookup_simps)

lemma getCountryFlag_trimmed: "getCountryFlag (Some ''  FRANCE '') = Some (flagEmoji ''FR'')"
  by (simp add: lookup_simps)

lemma getCountryFlag_Atlantis: "getCountryFlag (Some ''Atlantis'') = None"
  by (simp add: lookup_simps)

lemma getCountryFlag_inherited: "getCountryFlag (Some ''Constructor'') = Some (JObject ''Object'')"
  by (simp add: lookup_simps)

lemma getCountryFlag_no_break_space:
  "getCountryFlag (Some ([CHR 0xC2, CHR 0xA0] @ ''France'' @ [CHR 0xE3, CHR 0x80, CHR 0x80]))
     = Some (flagEmoji ''FR'')"
  by (simp add: lookup_simps)

lemma getCountryFlag_kelvin:
  "getCountryFlag (Some (''Tur'' @ [CHR 0xE2, CHR 0x84, CHR 0xAA] @ ''ey''))
     = Some (flagEmoji ''TR'')"
  by (simp add: lookup_simps)

section \<open>Expiry of negative and positive entries\<close>

text \<open>
  C7. At the same instant the expiry computed for an absent result is strictly earlier
  than the expiry computed for any present result: one day against thirty days after
  \<open>now\<close>, in milliseconds.
\<close>

theorem calculateExpiry_negative_shorter:
  "calculateExpiry None now < calculateExpiry (Some v) now \<and>
   calculateExpiry None now = now + 1 * 24 * 60 * 60 * 1000 \<and>
   calculateExpiry (Some v) now = now + 30 * 24 * 60 * 60 * 1000"
  by (simp add: calculateExpiry_def NULL_CACHE_EXPIRY_DAYS_def CACHE_EXPIRY_DAYS_def)

section \<open>The display text\<close>

text \<open>
  C9, as stated, fails: for a value with no mapping the display text is not the raw value
  but the value wrapped in parentheses, the template \<open>`(${location})`\<close>.
\<close>

theorem displayText_raw_counterexample:
  "getCountryFlag (Some ''Atlantis'') = None \<and>
   displayText (createLocationInfo (Some ''Atlantis'')) = Some (JString ''(Atlantis)'') \<and>
   displayText (createLocationInfo (Some ''Atlantis'')) \<noteq> Some (JString ''Atlantis'')"
  by (simp add: createLocationInfo_def getCountryFlag_Atlantis)

text \<open>
  C9, amended. The display text is a function of the resolved value alone: for a
  non-empty value it is what \<open>getCountryFlag\<close> maps the value to when there is a mapping,
  and the value wrapped in parentheses when there is none; for \<open>null\<close> and for the empty
  string the location, the flag and the display text are all absent.
\<close>

theorem displayText_derived:
  "createLocationInfo None = emptyInfo \<and>
   createLocationInfo (Some []) = emptyInfo \<and>
   displayText emptyInfo = None \<and>
   (v \<noteq> [] \<longrightarrow>
      location (createLocationInfo (Some v)) = Some v \<and>
      flag (createLocationInfo (Some v)) = getCountryFlag (Some v) \<and>
      (\<forall>f. getCountryFlag (Some v) = Some f \<longrightarrow>
           displayText (createLocationInfo (Some v)) = Some f) \<and>
      (getCountryFlag (Some v) = None \<longrightarrow>
           displayText (createLocationInfo (Some v)) = Some (JString (''('' @ v @ '')''))))"
  by (simp add: createLocationInfo_def emptyInfo_def Let_def)

theorem displayText_derived_witness:
  "''France'' \<noteq> [] \<and>
   displayText (createLocationInfo (Some ''France'')) = Some (flagEmoji ''FR'') \<and>
   displayText (createLocationInfo (Some ''Atlantis'')) = Some (JString ''(Atlantis)'')"
  using displayText_derived [of "''France''"] displayText_derived [of "''Atlantis''"]
    getCountryFlag_France getCountryFlag_Atlantis
  by simp

section \<open>The throttling signal\<close>

lemma onRateLimitInfo_fields:
  "consecutiveRateLimits (onRateLimitInfo r now s) = consecutiveRateLimits s + 1"
  "rateLimitResetTime (onRateLimitInfo r now s) =
     max r (now div 1000 + 5 * 2 ^ consecutiveRateLimits s * 60)"
  by (simp_all add: onRateLimitInfo_def Let_def BASE_BACKOFF_MINUTES_def)



text \<open>
  When exactly the second of two consecutive signals shrinks the window: when the first
  remote-reported reset time is later than both the second one and the second
  exponential time.
\<close>

lemma window_shrinks_iff:
  assumes "now1 \<le> now2"
  shows "(rateLimitResetTime (onRateLimitInfo r2 now2 (onRateLimitInfo r1 now1 s))
            < rateLimitResetTime (onRateLimitInfo r1 now1 s))
         = (r2 < r1 \<and> now2 div 1000 + 5 * 2 ^ Suc (consecutiveRateLimits s) * 60 < r1)"
proof -
  have d: "now1 div 1000 \<le> now2 div 1000" using assms by (rule zdiv_mono1) simp
  define x where "x = (2::int) ^ consecutiveRateLimits s"
  have x: "0 < x" by (simp add: x_def)
  have old: "rateLimitResetTime (onRateLimitInfo r1 now1 s) = max r1 (now1 div 1000 + 300 * x)"
    by (simp add: onRateLimitInfo_fields x_def)
  have new: "rateLimitResetTime (onRateLimitInfo r2 now2 (onRateLimitInfo r1 now1 s))
      = max r2 (now2 div 1000 + 600 * x)"
    by (simp add: onRateLimitInfo_fields x_def)
  have rhs: "now2 div 1000 + 5 * 2 ^ Suc (consecutiveRateLimits s) * 60
      = now2 div 1000 + 600 * x"
    by (simp add: x_def)
  show ?thesis unfolding old new rhs using d x by (auto simp add: max_def)
qed


section \<open>What each operation leaves unchanged\<close>

lemma rejectAll_frame:
  "locationCache (rejectAll q s) = locationCache s"
  "locationStats (rejectAll q s) = locationStats s"
  "requestQueue (rejectAll q s) = requestQueue s"
  "requests (rejectAll q s) = requests s"
  "timers (rejectAll q s) = timers s"
  "isProcessingQueue (rejectAll q s) = isProcessingQueue s"
  "rateLimitResetTime (rejectAll q s) = rateLimitResetTime s"
  "consecutiveRateLimits (rejectAll q s) = consecutiveRateLimits s"
  "drainState (rejectAll q s) = drainState s"
  "activeRequests (rejectAll q s) = activeRequests s"
  "length (promises (rejectAll q s)) = length (promises s)"
  by (induction q s rule: rejectAll.induct; simp add: taskReject_def)+

lemma dispatch_frame:
  "locationCache (dispatch now s) = locationCache s"
  "locationStats (dispatch now s) = locationStats s"
  "promises (dispatch now s) = promises s"
  "pendingLocationRequests (dispatch now s) = pendingLocationRequests s"
  "rateLimitResetTime (dispatch now s) = rateLimitResetTime s"
  "consecutiveRateLimits (dispatch now s) = consecutiveRateLimits s"
  by (simp_all add: dispatch_def makeLocationRequest_def Let_def split: list.splits prod.splits)

lemma drainLoop_frame:
  "locationCache (drainLoop now s) = locationCache s"
  "locationStats (drainLoop now s) = locationStats s"
  "promises (drainLoop now s) = promises s"
  "pendingLocationRequests (drainLoop now s) = pendingLocationRequests s"
  "rateLimitResetTime (drainLoop now s) = rateLimitResetTime s"
  "consecutiveRateLimits (drainLoop now s) = consecutiveRateLimits s"
  by (simp_all add: drainLoop_def dispatch_frame Let_def)

lemma processRequestQueue_frame:
  "locationCache (processRequestQueue now s) = locationCache s"
  "locationStats (processRequestQueue now s) = locationStats s"
  by (simp_all add: processRequestQueue_def drainLoop_frame rejectAll_frame resetRateLimit_def Let_def)

lemma resumeAfterRequest_frame:
  "locationCache (resumeAfterRequest now s) = locationCache s"
  "locationStats (resumeAfterRequest now s) = locationStats s"
  by (simp_all add: resumeAfterRequest_def drainLoop_frame taskResolve_def taskReject_def Let_def
      split: drain.splits promise.splits)

lemma resumeAfterPacing_frame:
  "locationCache (resumeAfterPacing now s) = locationCache s"
  "locationStats (resumeAfterPacing now s) = locationStats s"
  by (simp_all add: resumeAfterPacing_def dispatch_frame split: drain.splits)

lemma onRequestTimeout_frame:
  "locationCache (onRequestTimeout rid s) = locationCache s"
  "locationStats (onRequestTimeout rid s) = locationStats s"
  by (simp_all add: onRequestTimeout_def Let_def)

lemma onRateLimitInfo_frame:
  "locationCache (onRateLimitInfo r now s) = locationCache s"
  "locationStats (onRateLimitInfo r now s) = locationStats s"
  by (simp_all add: onRateLimitInfo_def Let_def)

lemma cacheCheck_stats: "locationStats (snd (cacheCheck k now s)) = locationStats s"
  by (simp add: cacheCheck_def split: option.splits)

lemma cacheCheck_cache:
  "locationCache (snd (cacheCheck k now s)) = locationCache s \<or>
   locationCache (snd (cacheCheck k now s)) = (locationCache s)(k := None)"
  by (simp add: cacheCheck_def split: option.splits)

lemma getLocation_cache:
  "locationCache (snd (getLocation k now s)) = locationCache (snd (cacheCheck k now s))"
  by (simp add: getLocation_def processRequestQueue_frame Let_def split: prod.splits option.splits)

lemma getLocation_stats: "locationStats (snd (getLocation k now s)) = locationStats s"
proof -
  have "locationStats (snd (getLocation k now s)) = locationStats (snd (cacheCheck k now s))"
    by (simp add: getLocation_def processRequestQueue_frame Let_def split: prod.splits option.splits)
  then show ?thesis by (simp add: cacheCheck_stats)
qed

lemma calculateExpiry_pos: "0 \<le> now \<Longrightarrow> 0 < calculateExpiry v now"
  by (simp add: calculateExpiry_def NULL_CACHE_EXPIRY_DAYS_def CACHE_EXPIRY_DAYS_def)

lemma saveCacheEntry_cache:
  "locationCache (saveCacheEntry True k v now s) =
     (locationCache s)(k \<mapsto> \<lparr>cachedLocation = v, expiry = calculateExpiry v now, cachedAt = Some now\<rparr>)"
  by (simp add: saveCacheEntry_def updateStats_def Let_def split: option.splits)

section \<open>The cache: put, get and lazy eviction\<close>

text \<open>
  C3. Let \<open>saveCacheEntry\<close> store \<open>v\<close> for \<open>k\<close> at \<open>now\<close> (the extension context being valid,
  \<open>now\<close> a reading of \<open>Date.now()\<close>, and \<open>v\<close> \<open>null\<close> or a non-empty string, as its caller
  passes \<open>location || null\<close>). The entry expires at \<open>calculateExpiry v now\<close>. A
  \<open>getLocation\<close> at any \<open>now'\<close> strictly before that returns \<open>v\<close> from the cache and changes
  nothing; at any \<open>now'\<close> at or after it the cache check finds nothing, no cached value is
  returned, and the entry is gone from the cache afterwards.
\<close>

theorem ttl_cache_put_get:
  assumes "0 \<le> now" and "v \<noteq> Some []"
  shows "map_option expiry (locationCache (saveCacheEntry True k v now s) k)
           = Some (calculateExpiry v now) \<and>
         (now' < calculateExpiry v now \<longrightarrow>
            getLocation k now' (saveCacheEntry True k v now s)
              = (Return (createLocationInfo v), saveCacheEntry True k v now s) \<and>
            location (createLocationInfo v) = v) \<and>
         (calculateExpiry v now \<le> now' \<longrightarrow>
            fst (cacheCheck k now' (saveCacheEntry True k v now s)) = None \<and>
            (\<forall>info. fst (getLocation k now' (saveCacheEntry True k v now s)) \<noteq>
                Return info \<or> info = emptyInfo) \<and>
            locationCache (snd (getLocation k now' (saveCacheEntry True k v now s))) k = None)"
proof -
  let ?s1 = "saveCacheEntry True k v now s"
  have pos: "0 < calculateExpiry v now" using assms(1) by (rule calculateExpiry_pos)
  have loc: "location (createLocationInfo v) = v"
    using assms(2) by (cases v) (simp_all add: createLocationInfo_def emptyInfo_def Let_def)
  have hit: "now' < calculateExpiry v now \<Longrightarrow>
      cacheCheck k now' ?s1 = (Some (createLocationInfo v), ?s1)"
    using pos by (simp add: cacheCheck_def saveCacheEntry_cache)
  have miss: "calculateExpiry v now \<le> now' \<Longrightarrow>
      cacheCheck k now' ?s1 = (None, ?s1\<lparr>locationCache := (locationCache ?s1)(k := None)\<rparr>)"
    by (simp add: cacheCheck_def saveCacheEntry_cache)
  have a: "map_option expiry (locationCache ?s1 k) = Some (calculateExpiry v now)"
    by (simp add: saveCacheEntry_cache)
  have b: "now' < calculateExpiry v now \<Longrightarrow>
      getLocation k now' ?s1 = (Return (createLocationInfo v), ?s1)"
    by (simp add: getLocation_def hit)
  have c: "calculateExpiry v now \<le> now' \<Longrightarrow>
      locationCache (snd (getLocation k now' ?s1)) k = None"
    by (simp add: getLocation_cache miss)
  have d: "calculateExpiry v now \<le> now' \<Longrightarrow>
      fst (getLocation k now' ?s1) \<noteq> Return info \<or> info = emptyInfo" for info
    by (auto simp add: getLocation_def miss Let_def split: option.splits)
  show ?thesis using a b c d loc miss by simp
qed

theorem ttl_cache_put_get_witness:
  "(0::int) \<le> 1000 \<and> Some ''France'' \<noteq> Some [] \<and>
   calculateExpiry (Some ''France'') 1000 = 2592001000 \<and>
   fst (getLocation ''alice'' 2592000999
          (saveCacheEntry True ''alice'' (Some ''France'') 1000 initialState))
     = Return (createLocationInfo (Some ''France'')) \<and>
   location (createLocationInfo (Some ''France'')) = Some ''France'' \<and>
   locationCache (snd (getLocation ''alice'' 2592001000
          (saveCacheEntry True ''alice'' (Some ''France'') 1000 initialState))) ''alice'' = None"
  using ttl_cache_put_get [where now = 1000 and v = "Some ''France''" and k = "''alice''"
        and s = initialState and now' = 2592000999]
    ttl_cache_put_get [where now = 1000 and v = "Some ''France''" and k = "''alice''"
        and s = initialState and now' = 2592001000]
  by (simp add: calculateExpiry_def CACHE_EXPIRY_DAYS_def)

section \<open>The aggregator and the cache\<close>

lemma statsCover_initial: "statsCover initialState"
  by (simp add: statsCover_def initialState_def)

lemma statsCoverD:
  "statsCover s \<Longrightarrow> locationCache s k = Some e \<Longrightarrow> cachedLocation e = Some v \<Longrightarrow> v \<noteq> [] \<Longrightarrow>
   \<exists>u. locationStats s v = Some u \<and> k \<in> u"
  unfolding statsCover_def by blast

lemma statsCover_finite: "statsCover s \<Longrightarrow> locationStats s v = Some u \<Longrightarrow> finite u"
  unfolding statsCover_def by blast

lemma statsCoverI:
  "(\<And>v u. locationStats s v = Some u \<Longrightarrow> finite u) \<Longrightarrow>
   (\<And>k e v. locationCache s k = Some e \<Longrightarrow> cachedLocation e = Some v \<Longrightarrow> v \<noteq> [] \<Longrightarrow>
      \<exists>u. locationStats s v = Some u \<and> k \<in> u) \<Longrightarrow> statsCover s"
  unfolding statsCover_def by blast

lemma statsCover_frame:
  "locationCache s' = locationCache s \<Longrightarrow> locationStats s' = locationStats s \<Longrightarrow>
   statsCover s \<Longrightarrow> statsCover s'"
  unfolding statsCover_def by metis

text \<open>Storing an entry and adding its key to the set of its value keeps the cover.\<close>

lemma statsCover_store:
  assumes cov: "statsCover s"
    and cache: "locationCache s' = (locationCache s)(k \<mapsto> ent)"
    and stats: "locationStats s' =
      (case cachedLocation ent of
         None \<Rightarrow> locationStats s
       | Some l \<Rightarrow> if l = [] \<and> skipEmpty then locationStats s
                   else (locationStats s)(l \<mapsto>
                     insert k (case locationStats s l of None \<Rightarrow> {} | Some u \<Rightarrow> u)))"
  shows "statsCover s'"
proof (rule statsCoverI)
  fix v u assume "locationStats s' v = Some u"
  then show "finite u"
    using statsCover_finite [OF cov] unfolding stats
    by (auto split: option.splits if_splits)
next
  fix k' e v
  assume e: "locationCache s' k' = Some e" "cachedLocation e = Some v" "v \<noteq> []"
  show "\<exists>u. locationStats s' v = Some u \<and> k' \<in> u"
  proof (cases "k' = k")
    case True
    with e cache have "cachedLocation ent = Some v" by simp
    with e(3) True show ?thesis unfolding stats by simp
  next
    case False
    with e cache have "locationCache s k' = Some e" by simp
    from statsCoverD [OF cov this e(2,3)]
    obtain u where "locationStats s v = Some u" "k' \<in> u" by blast
    then show ?thesis unfolding stats by (auto split: option.splits)
  qed
qed

lemma statsCover_saveCacheEntry: "statsCover s \<Longrightarrow> statsCover (saveCacheEntry valid k loc now s)"
proof (cases valid)
  case False
  assume "statsCover s" with False show ?thesis by (simp add: saveCacheEntry_def)
next
  case True
  assume "statsCover s"
  then show ?thesis
    by (rule statsCover_store [where skipEmpty = True and k = k and
          ent = "\<lparr>cachedLocation = loc, expiry = calculateExpiry loc now, cachedAt = Some now\<rparr>"])
       (cases loc; simp add: True saveCacheEntry_def updateStats_def Let_def)+
qed

lemma statsCover_loadEntry: "statsCover s \<Longrightarrow> statsCover (loadEntry now e s)"
proof -
  assume cov: "statsCover s"
  obtain username loc exp where e: "e = (username, loc, exp)" by (cases e)
  show ?thesis
  proof (cases "exp \<noteq> 0 \<and> exp > now")
    case False
    with cov e show ?thesis by (auto simp add: loadEntry_def)
  next
    case True
    from cov show ?thesis
      by (rule statsCover_store [where skipEmpty = False and k = username and
            ent = "\<lparr>cachedLocation = loc, expiry = exp, cachedAt = None\<rparr>"])
         (cases loc; use True e in \<open>simp add: loadEntry_def Let_def\<close>)+
  qed
qed

lemma statsCover_loadCache: "statsCover s \<Longrightarrow> statsCover (loadCache cached now s)"
  unfolding loadCache_def
  by (induction cached arbitrary: s) (simp_all add: statsCover_loadEntry)

lemma statsCover_cacheCheck: "statsCover s \<Longrightarrow> statsCover (snd (cacheCheck k now s))"
proof -
  assume cov: "statsCover s"
  show ?thesis
  proof (rule statsCoverI)
    fix v u assume "locationStats (snd (cacheCheck k now s)) v = Some u"
    then show "finite u" using statsCover_finite [OF cov] by (simp add: cacheCheck_stats)
  next
    fix k' e v
    assume e: "locationCache (snd (cacheCheck k now s)) k' = Some e"
      "cachedLocation e = Some v" "v \<noteq> []"
    from e(1) cacheCheck_cache [of k now s] have "locationCache s k' = Some e"
      by (auto split: if_splits)
    from statsCoverD [OF cov this e(2,3)]
    show "\<exists>u. locationStats (snd (cacheCheck k now s)) v = Some u \<and> k' \<in> u"
      by (simp add: cacheCheck_stats)
  qed
qed

lemma statsCover_getLocation: "statsCover s \<Longrightarrow> statsCover (snd (getLocation k now s))"
proof -
  assume "statsCover s"
  then have "statsCover (snd (cacheCheck k now s))" by (rule statsCover_cacheCheck)
  moreover have "locationStats (snd (getLocation k now s)) = locationStats (snd (cacheCheck k now s))"
    by (simp add: getLocation_stats cacheCheck_stats)
  ultimately show ?thesis using getLocation_cache statsCover_frame by blast
qed

lemma statsCover_onLocationResponse:
  "statsCover s \<Longrightarrow> statsCover (onLocationResponse rid loc rl now valid s)"
proof -
  assume a: "statsCover s"
  show ?thesis
  proof (cases "rid < length (requests s) \<and> listening (requests s ! rid)")
    case False
    then have "onLocationResponse rid loc rl now valid s = s"
      unfolding onLocationResponse_def by (rule if_not_P)
    then show ?thesis using a by simp
  next
    case True
    let ?s1 = "s\<lparr>requests := (requests s)[rid := (requests s ! rid)\<lparr>listening := False\<rparr>]\<rparr>"
    let ?s2 = "if \<not> rl then saveCacheEntry valid (reqScreenName (requests s ! rid)) (orNull loc) now ?s1 else ?s1"
    have "statsCover ?s1" using a by (rule statsCover_frame [rotated 2]) simp_all
    then have s2: "statsCover ?s2" by (simp add: statsCover_saveCacheEntry)
    show ?thesis using True
      by (simp only: onLocationResponse_def Let_def if_True)
         (rule statsCover_frame [OF _ _ s2], simp_all)
  qed
qed

lemma statsCover_step: "statsCover s \<Longrightarrow> ev \<noteq> ResetStats \<Longrightarrow> statsCover (step ev s)"
proof (cases ev)
  case (GetLocation k now)
  assume "statsCover s" then show ?thesis using GetLocation by (simp add: statsCover_getLocation)
next
  case (RateLimitInfo r now)
  assume "statsCover s" then show ?thesis using RateLimitInfo
    by (simp add: statsCover_frame [OF onRateLimitInfo_frame])
next
  case (LocationResponse rid loc rl now valid)
  assume "statsCover s" then show ?thesis using LocationResponse
    by (simp add: statsCover_onLocationResponse)
next
  case (RequestTimeout rid)
  assume "statsCover s" then show ?thesis using RequestTimeout
    by (simp add: statsCover_frame [OF onRequestTimeout_frame])
next
  case (RequestSettled now)
  assume "statsCover s" then show ?thesis using RequestSettled
    by (simp add: statsCover_frame [OF resumeAfterRequest_frame])
next
  case (PacingElapsed now)
  assume "statsCover s" then show ?thesis using PacingElapsed
    by (simp add: statsCover_frame [OF resumeAfterPacing_frame])
next
  case (ProcessQueueTimer now)
  assume "statsCover s" then show ?thesis using ProcessQueueTimer
    by (simp add: statsCover_frame [OF processRequestQueue_frame])
next
  case (LoadCache cached now)
  assume "statsCover s" then show ?thesis using LoadCache by (simp add: statsCover_loadCache)
next
  case ResetStats
  assume "ev \<noteq> ResetStats" then show ?thesis using ResetStats by simp
qed

lemma statsCover_run: "statsCover s \<Longrightarrow> ResetStats \<notin> set es \<Longrightarrow> statsCover (run es s)"
  unfolding run_def
proof (induction es arbitrary: s)
  case Nil
  then show ?case by simp
next
  case (Cons ev es)
  from Cons.prems have "statsCover (step ev s)" by (auto intro: statsCover_step)
  with Cons show ?case by simp
qed

lemma statsCover_holders:
  assumes "statsCover s" and "v \<noteq> []"
  shows "holders s v \<subseteq> (case locationStats s v of None \<Rightarrow> {} | Some u \<Rightarrow> u) \<and>
         card (holders s v) \<le> statsCount s v"
proof (cases "holders s v = {}")
  case True then show ?thesis by simp
next
  case False
  then obtain k e where k: "locationCache s k = Some e" "cachedLocation e = Some v"
    by (auto simp: holders_def)
  with assms obtain u where u: "locationStats s v = Some u" "finite u"
    unfolding statsCover_def by blast
  have sub: "holders s v \<subseteq> u"
  proof
    fix k' assume "k' \<in> holders s v"
    then obtain e' where "locationCache s k' = Some e'" "cachedLocation e' = Some v"
      by (auto simp: holders_def)
    with assms u show "k' \<in> u" unfolding statsCover_def by fastforce
  qed
  then have "card (holders s v) \<le> card u" using u(2) by (rule card_mono [rotated])
  with sub u show ?thesis by (simp add: statsCount_def)
qed

lemma liveHolders_subset: "liveHolders s now v \<subseteq> holders s v"
  by (auto simp: liveHolders_def holders_def)

text \<open>
  C8, as stated, fails: nothing removes a key from the aggregator. After alice is resolved
  to France and her entry has expired, the read evicts the entry from the cache, no live
  entry holds France, and the aggregator's count for France is still 1.
\<close>

theorem stats_count_after_expiry_counterexample:
  "statsCount (run [GetLocation ''alice'' 5000,
                    LocationResponse 0 (Some ''France'') False 6000 True,
                    RequestSettled 6000,
                    GetLocation ''alice'' 2592006000] initialState) ''France'' = 1 \<and>
   liveHolders (run [GetLocation ''alice'' 5000,
                     LocationResponse 0 (Some ''France'') False 6000 True,
                     RequestSettled 6000,
                     GetLocation ''alice'' 2592006000] initialState)
      2592006000 ''France'' = {} \<and>
   statsCount (run [GetLocation ''alice'' 5000,
                    LocationResponse 0 (Some ''France'') False 6000 True,
                    RequestSettled 6000,
                    GetLocation ''alice'' 2592006000] initialState) ''France''
     \<noteq> card (liveHolders (run [GetLocation ''alice'' 5000,
                     LocationResponse 0 (Some ''France'') False 6000 True,
                     RequestSettled 6000,
                     GetLocation ''alice'' 2592006000] initialState)
      2592006000 ''France'')"
  by (simp add: exec_simps statsCount_def liveHolders_def)

text \<open>
  C8, amended. In every state reached from the initial one without a statistics reset,
  the aggregator's set for a non-empty value \<open>v\<close> contains every key whose cache entry
  holds \<open>v\<close>, so its count is at least the number of distinct keys whose live entry holds
  \<open>v\<close>. \<open>saveCacheEntry\<close> adds the key to the set of the value it stores. The eviction of an
  expired entry by \<open>getLocation\<close> leaves every count as it was.
\<close>

theorem stats_cover_cache:
  assumes "ResetStats \<notin> set es" and "v \<noteq> []"
  shows "holders (run es initialState) v
           \<subseteq> (case locationStats (run es initialState) v of None \<Rightarrow> {} | Some u \<Rightarrow> u) \<and>
         card (liveHolders (run es initialState) now v) \<le> statsCount (run es initialState) v \<and>
         (\<exists>u. locationStats (saveCacheEntry True k (Some v) now s) v = Some u \<and> k \<in> u) \<and>
         statsCount (snd (getLocation k now s)) v = statsCount s v"
proof -
  let ?s = "run es initialState"
  have cov: "statsCover ?s" using statsCover_initial assms(1) by (rule statsCover_run)
  from statsCover_holders [OF cov assms(2)]
  have h: "holders ?s v \<subseteq> (case locationStats ?s v of None \<Rightarrow> {} | Some u \<Rightarrow> u)"
    "card (holders ?s v) \<le> statsCount ?s v" by simp_all
  have fin: "finite (holders ?s v)"
  proof (cases "locationStats ?s v")
    case None with h(1) show ?thesis by simp
  next
    case (Some u)
    show ?thesis
    proof (cases "holders ?s v = {}")
      case True then show ?thesis by simp
    next
      case False
      then obtain k' e where "locationCache ?s k' = Some e" "cachedLocation e = Some v"
        by (auto simp: holders_def)
      with cov assms(2) Some have "finite u" unfolding statsCover_def by fastforce
      with h(1) Some show ?thesis by (simp add: finite_subset)
    qed
  qed
  have "card (liveHolders ?s now v) \<le> card (holders ?s v)"
    using liveHolders_subset fin by (rule card_mono [rotated])
  with h(2) have live: "card (liveHolders ?s now v) \<le> statsCount ?s v" by linarith
  have add: "\<exists>u. locationStats (saveCacheEntry True k (Some v) now s) v = Some u \<and> k \<in> u"
    using assms(2) by (simp add: saveCacheEntry_def updateStats_def Let_def)
  have ev: "statsCount (snd (getLocation k now s)) v = statsCount s v"
    by (simp add: statsCount_def getLocation_stats)
  show ?thesis using h(1) live add ev by simp
qed


theorem stats_cover_cache_witness:
  "ResetStats \<notin> set [GetLocation ''alice'' 5000,
                       LocationResponse 0 (Some ''France'') False 6000 True,
                       RequestSettled 6000] \<and>
   ''France'' \<noteq> [] \<and>
   holders (run [GetLocation ''alice'' 5000,
                 LocationResponse 0 (Some ''France'') False 6000 True,
                 RequestSettled 6000] initialState) ''France'' \<subseteq> {''alice''} \<and>
   statsCount (run [GetLocation ''alice'' 5000,
                    LocationResponse 0 (Some ''France'') False 6000 True,
                    RequestSettled 6000] initialState) ''France'' = 1"
  using stats_cover_cache [where es = "[GetLocation ''alice'' 5000,
                       LocationResponse 0 (Some ''France'') False 6000 True,
                       RequestSettled 6000]" and v = "''France''" and now = 7000
                       and k = "''bob''" and s = initialState]
  by (simp add: exec_simps statsCount_def)

section \<open>The drain under an open or a lapsed rate-limit window\<close>

lemma rejectPromise_idem: "rejectPromise e (rejectPromise e p) = rejectPromise e p"
  by (cases p) simp_all

lemma rejectAll_promises:
  "pid < length (promises s) \<Longrightarrow>
   promises (rejectAll q s) ! pid =
     (if pid \<in> snd ` set q then rejectPromise ''Rate limited'' (promises s ! pid)
      else promises s ! pid)"
proof (induction q s rule: rejectAll.induct)
  case (1 s)
  then show ?case by simp
next
  case (2 screenName p rest s)
  let ?s1 = "taskReject screenName p ''Rate limited'' s"
  have len: "pid < length (promises ?s1)" using 2 by (simp add: taskReject_def)
  have at: "promises ?s1 ! pid =
      (if pid = p then rejectPromise ''Rate limited'' (promises s ! pid) else promises s ! pid)"
    using "2.prems" by (simp add: taskReject_def nth_list_update)
  show ?case using "2.IH" [OF len] at by (auto simp: rejectPromise_idem)
qed

lemma rejectAll_pending:
  "pendingLocationRequests (rejectAll q s) k =
     (if k \<in> fst ` set q then None else pendingLocationRequests s k)"
  by (induction q s rule: rejectAll.induct) (auto simp: taskReject_def)


text \<open>
  C6, as stated, fails: the window is checked only when \<open>processRequestQueue\<close> is called
  and passes its guard. While alice's request is in flight and bob is queued, a throttling
  signal opens a window until second 2000 and alice's answer comes back rate-limited. The
  call of \<open>processRequestQueue\<close> that the \<open>finally\<close> block scheduled finds the window open
  and bob queued, and changes nothing, because the first call is still in progress; that
  one goes on and dispatches bob's request inside the window. And a call after the window
  has lapsed, made with an empty queue, leaves \<open>rateLimitResetTime\<close> as it is.
\<close>

theorem drain_guard_counterexample:
  "isRateLimited 6200
     (run [GetLocation ''alice'' 5000, GetLocation ''bob'' 5100, RateLimitInfo 2000 6000,
           LocationResponse 0 None True 6000 True, RequestSettled 6000] initialState) \<and>
   requestQueue
     (run [GetLocation ''alice'' 5000, GetLocation ''bob'' 5100, RateLimitInfo 2000 6000,
           LocationResponse 0 None True 6000 True, RequestSettled 6000] initialState)
     = [(''bob'', 1)] \<and>
   processRequestQueue 6200
     (run [GetLocation ''alice'' 5000, GetLocation ''bob'' 5100, RateLimitInfo 2000 6000,
           LocationResponse 0 None True 6000 True, RequestSettled 6000] initialState)
     = run [GetLocation ''alice'' 5000, GetLocation ''bob'' 5100, RateLimitInfo 2000 6000,
            LocationResponse 0 None True 6000 True, RequestSettled 6000] initialState \<and>
   isRateLimited 8500
     (run [GetLocation ''alice'' 5000, GetLocation ''bob'' 5100, RateLimitInfo 2000 6000,
           LocationResponse 0 None True 6000 True, RequestSettled 6000,
           ProcessQueueTimer 6200, PacingElapsed 8500] initialState) \<and>
   map reqScreenName (requests
     (run [GetLocation ''alice'' 5000, GetLocation ''bob'' 5100, RateLimitInfo 2000 6000,
           LocationResponse 0 None True 6000 True, RequestSettled 6000,
           ProcessQueueTimer 6200, PacingElapsed 8500] initialState)) = [''alice'', ''bob''] \<and>
   promises
     (run [GetLocation ''alice'' 5000, GetLocation ''bob'' 5100, RateLimitInfo 2000 6000,
           LocationResponse 0 None True 6000 True, RequestSettled 6000,
           ProcessQueueTimer 6200, PacingElapsed 8500] initialState)
     = [Resolved None, Pending] \<and>
   0 < rateLimitResetTime (run [RateLimitInfo 2000 1000000] initialState) \<and>
   rateLimitResetTime (run [RateLimitInfo 2000 1000000] initialState) \<le> 3000000 div 1000 \<and>
   rateLimitResetTime
     (processRequestQueue 3000000 (run [RateLimitInfo 2000 1000000] initialState)) = 2000"
  by (simp add: exec_simps)

text \<open>
  C6, amended. Let \<open>processRequestQueue\<close> be called when no other call of it is in
  progress and the queue is not empty. While \<open>now\<close> (in seconds) is before
  \<open>rateLimitResetTime\<close>, it rejects every queued task with the error \<open>Rate limited\<close>
  (each task's promise is rejected unless already settled, and its key is unregistered),
  empties the queue, dispatches nothing, and schedules one re-check of itself after
  \<open>min ((rateLimitResetTime - now) * 1000) 60000\<close> milliseconds. When the window has lapsed
  (\<open>rateLimitResetTime > 0\<close> and \<open>now\<close> at or after it), it clears \<open>rateLimitResetTime\<close> and
  resets \<open>consecutiveRateLimits\<close> to \<open>0\<close>. A call made while another is in progress, or with
  an empty queue, changes nothing.
\<close>

theorem rate_limited_drain:
  assumes "0 \<le> now"
  shows "(\<not> isProcessingQueue s \<and> requestQueue s \<noteq> [] \<and>
          now div 1000 < rateLimitResetTime s \<longrightarrow>
            requestQueue (processRequestQueue now s) = [] \<and>
            (\<forall>(k, pid) \<in> set (requestQueue s).
               pendingLocationRequests (processRequestQueue now s) k = None \<and>
               (pid < length (promises s) \<longrightarrow>
                  promises (processRequestQueue now s) ! pid
                    = rejectPromise ''Rate limited'' (promises s ! pid))) \<and>
            timers (processRequestQueue now s) =
              timers s @ [(min ((rateLimitResetTime s - now div 1000) * 1000) 60000,
                           ProcessRequestQueueCB)] \<and>
            requests (processRequestQueue now s) = requests s \<and>
            isProcessingQueue (processRequestQueue now s) = False \<and>
            rateLimitResetTime (processRequestQueue now s) = rateLimitResetTime s \<and>
            consecutiveRateLimits (processRequestQueue now s) = consecutiveRateLimits s) \<and>
         (\<not> isProcessingQueue s \<and> requestQueue s \<noteq> [] \<and>
          0 < rateLimitResetTime s \<and> rateLimitResetTime s \<le> now div 1000 \<longrightarrow>
            rateLimitResetTime (processRequestQueue now s) = 0 \<and>
            consecutiveRateLimits (processRequestQueue now s) = 0) \<and>
         (isProcessingQueue s \<or> requestQueue s = [] \<longrightarrow> processRequestQueue now s = s)"
proof (cases "\<not> isProcessingQueue s \<and> requestQueue s \<noteq> []")
  case False
  then have "processRequestQueue now s = s" by (auto simp add: processRequestQueue_def)
  with False show ?thesis by blast
next
  case True
  then have guard: "\<not> isProcessingQueue s" "requestQueue s \<noteq> []" by simp_all
  have d: "0 \<le> now div 1000" using assms by simp
  have limited: "now div 1000 < rateLimitResetTime s \<Longrightarrow> isRateLimited now s"
    using d by (simp add: isRateLimited_def)
  have purge: "now div 1000 < rateLimitResetTime s \<Longrightarrow>
      processRequestQueue now s =
        (rejectAll (requestQueue s) s)\<lparr>requestQueue := [],
           timers := timers s @ [(min ((rateLimitResetTime s - now div 1000) * 1000) 60000,
                                  ProcessRequestQueueCB)]\<rparr>"
    using guard limited by (simp add: processRequestQueue_def Let_def rejectAll_frame)
  have lapsed: "0 < rateLimitResetTime s \<Longrightarrow> rateLimitResetTime s \<le> now div 1000 \<Longrightarrow>
      processRequestQueue now s = drainLoop now ((resetRateLimit s)\<lparr>isProcessingQueue := True\<rparr>)"
    using guard by (simp add: processRequestQueue_def isRateLimited_def Let_def)
  have rej: "now div 1000 < rateLimitResetTime s \<Longrightarrow> (k, pid) \<in> set (requestQueue s) \<Longrightarrow>
      pendingLocationRequests (processRequestQueue now s) k = None \<and>
      (pid < length (promises s) \<longrightarrow>
         promises (processRequestQueue now s) ! pid
           = rejectPromise ''Rate limited'' (promises s ! pid))" for k pid
  proof -
    assume a: "now div 1000 < rateLimitResetTime s" "(k, pid) \<in> set (requestQueue s)"
    from a(2) have "k \<in> fst ` set (requestQueue s)" "pid \<in> snd ` set (requestQueue s)"
      by force+
    then show ?thesis by (simp add: purge [OF a(1)] rejectAll_pending rejectAll_promises)
  qed
  have p1: "now div 1000 < rateLimitResetTime s \<Longrightarrow>
      requestQueue (processRequestQueue now s) = [] \<and>
      timers (processRequestQueue now s) =
        timers s @ [(min ((rateLimitResetTime s - now div 1000) * 1000) 60000,
                     ProcessRequestQueueCB)] \<and>
      requests (processRequestQueue now s) = requests s \<and>
      isProcessingQueue (processRequestQueue now s) = False \<and>
      rateLimitResetTime (processRequestQueue now s) = rateLimitResetTime s \<and>
      consecutiveRateLimits (processRequestQueue now s) = consecutiveRateLimits s"
    using guard(1) by (simp add: purge rejectAll_frame)
  have p2: "0 < rateLimitResetTime s \<Longrightarrow> rateLimitResetTime s \<le> now div 1000 \<Longrightarrow>
      rateLimitResetTime (processRequestQueue now s) = 0 \<and>
      consecutiveRateLimits (processRequestQueue now s) = 0"
    by (simp add: lapsed drainLoop_frame resetRateLimit_def)
  show ?thesis using guard rej p1 p2 by blast
qed

theorem rate_limited_drain_witness:
  "\<not> isProcessingQueue limitedState \<and> requestQueue limitedState \<noteq> [] \<and>
   (0::int) \<le> 1000000 \<and> 1000000 div 1000 < rateLimitResetTime limitedState \<and>
   requestQueue (processRequestQueue 1000000 limitedState) = [] \<and>
   promises (processRequestQueue 1000000 limitedState) = [Rejected ''Rate limited''] \<and>
   pendingLocationRequests (processRequestQueue 1000000 limitedState) ''alice'' = None \<and>
   timers (processRequestQueue 1000000 limitedState) = [(60000, ProcessRequestQueueCB)] \<and>
   0 < rateLimitResetTime limitedState \<and> rateLimitResetTime limitedState \<le> 3000000 div 1000 \<and>
   rateLimitResetTime (processRequestQueue 3000000 limitedState) = 0 \<and>
   consecutiveRateLimits (processRequestQueue 3000000 limitedState) = 0 \<and>
   requestQueue initialState = [] \<and>
   processRequestQueue 1000000 initialState = initialState"
  using rate_limited_drain [of 1000000 limitedState] rate_limited_drain [of 3000000 limitedState]
    rate_limited_drain [of 1000000 initialState]
  by (simp add: limitedState_def exec_simps)

section \<open>The bound of the queue\<close>

lemma dispatch_queue: "length (requestQueue (dispatch now s)) \<le> length (requestQueue s)"
  by (simp add: dispatch_def makeLocationRequest_def Let_def split: list.splits prod.splits)

lemma drainLoop_queue: "length (requestQueue (drainLoop now s)) \<le> length (requestQueue s)"
  by (simp add: drainLoop_def Let_def dispatch_queue)

lemma processRequestQueue_queue:
  "length (requestQueue (processRequestQueue now s)) \<le> length (requestQueue s)"
proof -
  have "length (requestQueue (drainLoop now t)) \<le> length (requestQueue s)"
    if "requestQueue t = requestQueue s" for t
    using drainLoop_queue [of now t] that by simp
  then show ?thesis
    by (simp add: processRequestQueue_def Let_def resetRateLimit_def)
qed

lemma resumeAfterRequest_queue:
  "length (requestQueue (resumeAfterRequest now s)) \<le> length (requestQueue s)"
proof -
  have "length (requestQueue (drainLoop now t)) \<le> length (requestQueue s)"
    if "requestQueue t = requestQueue s" for t
    using drainLoop_queue [of now t] that by simp
  then show ?thesis
    by (simp add: resumeAfterRequest_def Let_def taskResolve_def taskReject_def
        split: drain.splits promise.splits)
qed

lemma resumeAfterPacing_queue:
  "length (requestQueue (resumeAfterPacing now s)) \<le> length (requestQueue s)"
  by (simp add: resumeAfterPacing_def dispatch_queue split: drain.splits)

lemma cacheCheck_rest:
  "requestQueue (snd (cacheCheck k now s)) = requestQueue s"
  "promises (snd (cacheCheck k now s)) = promises s"
  "requests (snd (cacheCheck k now s)) = requests s"
  "timers (snd (cacheCheck k now s)) = timers s"
  "pendingLocationRequests (snd (cacheCheck k now s)) = pendingLocationRequests s"
  "isProcessingQueue (snd (cacheCheck k now s)) = isProcessingQueue s"
  "rateLimitResetTime (snd (cacheCheck k now s)) = rateLimitResetTime s"
  by (simp_all add: cacheCheck_def split: option.splits)

lemma getLocation_queue_bound:
  "length (requestQueue s) \<le> MAX_QUEUE_SIZE \<Longrightarrow>
   length (requestQueue (snd (getLocation k now s))) \<le> MAX_QUEUE_SIZE"
proof -
  assume b: "length (requestQueue s) \<le> MAX_QUEUE_SIZE"
  obtain r s1 where cc: "cacheCheck k now s = (r, s1)" by (cases "cacheCheck k now s")
  then have q1: "requestQueue s1 = requestQueue s" using cacheCheck_rest(1) [of k now s] by simp
  show ?thesis
  proof (cases "r = None \<and> pendingLocationRequests s1 k = None \<and>
                 \<not> MAX_QUEUE_SIZE \<le> length (requestQueue s1)")
    case False
    then show ?thesis using b q1 cc
      by (auto simp add: getLocation_def Let_def split: option.splits)
  next
    case True
    let ?s2 = "s1\<lparr>promises := promises s1 @ [Pending],
                   requestQueue := requestQueue s1 @ [(k, length (promises s1))]\<rparr>"
    have "length (requestQueue ?s2) \<le> MAX_QUEUE_SIZE" using True by simp
    with processRequestQueue_queue [of now ?s2]
    have "length (requestQueue (processRequestQueue now ?s2)) \<le> MAX_QUEUE_SIZE" by linarith
    then show ?thesis using True cc by (simp add: getLocation_def Let_def)
  qed
qed

lemma loadCache_queue: "requestQueue (loadCache cached now s) = requestQueue s"
  unfolding loadCache_def
  by (induction cached arbitrary: s)
     (simp_all add: loadEntry_def Let_def split: prod.splits option.splits)

lemma onLocationResponse_queue:
  "requestQueue (onLocationResponse rid loc rl now valid s) = requestQueue s"
  by (simp add: onLocationResponse_def saveCacheEntry_def updateStats_def Let_def
      split: option.splits)

lemma step_queue_bound:
  "length (requestQueue s) \<le> MAX_QUEUE_SIZE \<Longrightarrow>
   length (requestQueue (step ev s)) \<le> MAX_QUEUE_SIZE"
proof (cases ev)
  case (GetLocation k now)
  assume "length (requestQueue s) \<le> MAX_QUEUE_SIZE"
  then show ?thesis using GetLocation by (simp add: getLocation_queue_bound)
next
  case (RateLimitInfo r now)
  assume "length (requestQueue s) \<le> MAX_QUEUE_SIZE"
  then show ?thesis using RateLimitInfo by (simp add: onRateLimitInfo_def Let_def)
next
  case (LocationResponse rid loc rl now valid)
  assume "length (requestQueue s) \<le> MAX_QUEUE_SIZE"
  then show ?thesis using LocationResponse by (simp add: onLocationResponse_queue)
next
  case (RequestTimeout rid)
  assume "length (requestQueue s) \<le> MAX_QUEUE_SIZE"
  then show ?thesis using RequestTimeout by (simp add: onRequestTimeout_def Let_def)
next
  case (RequestSettled now)
  assume "length (requestQueue s) \<le> MAX_QUEUE_SIZE"
  then show ?thesis using RequestSettled resumeAfterRequest_queue [of now s] by simp
next
  case (PacingElapsed now)
  assume "length (requestQueue s) \<le> MAX_QUEUE_SIZE"
  then show ?thesis using PacingElapsed resumeAfterPacing_queue [of now s] by simp
next
  case (ProcessQueueTimer now)
  assume "length (requestQueue s) \<le> MAX_QUEUE_SIZE"
  then show ?thesis using ProcessQueueTimer processRequestQueue_queue [of now s] by simp
next
  case (LoadCache cached now)
  assume "length (requestQueue s) \<le> MAX_QUEUE_SIZE"
  then show ?thesis using LoadCache by (simp add: loadCache_queue)
next
  case ResetStats
  assume "length (requestQueue s) \<le> MAX_QUEUE_SIZE"
  then show ?thesis using ResetStats by (simp add: resetStats_def)
qed

lemma run_queue_bound:
  "length (requestQueue s) \<le> MAX_QUEUE_SIZE \<Longrightarrow>
   length (requestQueue (run es s)) \<le> MAX_QUEUE_SIZE"
  unfolding run_def
proof (induction es arbitrary: s)
  case Nil
  then show ?case by simp
next
  case (Cons ev es)
  from Cons.prems have "length (requestQueue (step ev s)) \<le> MAX_QUEUE_SIZE"
    by (rule step_queue_bound)
  with Cons.IH show ?case by simp
qed

lemma getLocation_full:
  assumes "MAX_QUEUE_SIZE \<le> length (requestQueue s)"
  shows "requestQueue (snd (getLocation k now s)) = requestQueue s"
    "promises (snd (getLocation k now s)) = promises s"
    "requests (snd (getLocation k now s)) = requests s"
    "timers (snd (getLocation k now s)) = timers s"
    "pendingLocationRequests (snd (getLocation k now s)) = pendingLocationRequests s"
    "fst (getLocation k now s) \<noteq> AwaitOwn pid"
    "fst (cacheCheck k now s) = None \<Longrightarrow> pendingLocationRequests s k = None \<Longrightarrow>
       fst (getLocation k now s) = Return emptyInfo"
proof -
  obtain r s1 where cc: "cacheCheck k now s = (r, s1)" by (cases "cacheCheck k now s")
  with cacheCheck_rest [of k now s]
  have eqs: "requestQueue s1 = requestQueue s" "promises s1 = promises s"
    "requests s1 = requests s" "timers s1 = timers s"
    "pendingLocationRequests s1 = pendingLocationRequests s" by simp_all
  have g: "getLocation k now s =
     (case r of Some info \<Rightarrow> (Return info, s1)
      | None \<Rightarrow> (case pendingLocationRequests s1 k of Some pid \<Rightarrow> (AwaitPending pid, s1)
                 | None \<Rightarrow> (Return emptyInfo, s1)))"
    using assms eqs(1) cc by (simp add: getLocation_def split: option.splits)
  show "requestQueue (snd (getLocation k now s)) = requestQueue s"
    "promises (snd (getLocation k now s)) = promises s"
    "requests (snd (getLocation k now s)) = requests s"
    "timers (snd (getLocation k now s)) = timers s"
    "pendingLocationRequests (snd (getLocation k now s)) = pendingLocationRequests s"
    "fst (getLocation k now s) \<noteq> AwaitOwn pid"
    using eqs by (simp_all add: g split: option.splits)
  show "fst (cacheCheck k now s) = None \<Longrightarrow> pendingLocationRequests s k = None \<Longrightarrow>
       fst (getLocation k now s) = Return emptyInfo"
    using eqs cc by (simp add: g)
qed


text \<open>
  C5. In every state the module reaches, the queue holds at most \<open>MAX_QUEUE_SIZE\<close> = 50
  tasks. When \<open>getLocation\<close> finds the queue at that size, it appends nothing, creates no
  promise, makes no request, arms no timer and registers nothing, and it never waits on
  a task of its own; when moreover the cache has no unexpired entry and no request is
  pending for the key, it returns at once the result whose location, flag and display
  text are all absent.
\<close>

theorem queue_bounded:
  "length (requestQueue (run es initialState)) \<le> MAX_QUEUE_SIZE \<and>
   MAX_QUEUE_SIZE = 50 \<and>
   (MAX_QUEUE_SIZE \<le> length (requestQueue s) \<longrightarrow>
      requestQueue (snd (getLocation k now s)) = requestQueue s \<and>
      promises (snd (getLocation k now s)) = promises s \<and>
      requests (snd (getLocation k now s)) = requests s \<and>
      timers (snd (getLocation k now s)) = timers s \<and>
      pendingLocationRequests (snd (getLocation k now s)) = pendingLocationRequests s \<and>
      (\<forall>pid. fst (getLocation k now s) \<noteq> AwaitOwn pid) \<and>
      (fst (cacheCheck k now s) = None \<and> pendingLocationRequests s k = None \<longrightarrow>
         fst (getLocation k now s) = Return emptyInfo)) \<and>
   emptyInfo = \<lparr>location = None, flag = None, displayText = None\<rparr>"
proof -
  have "length (requestQueue initialState) \<le> MAX_QUEUE_SIZE" by (simp add: initialState_def)
  then have "length (requestQueue (run es initialState)) \<le> MAX_QUEUE_SIZE"
    by (rule run_queue_bound)
  then show ?thesis
    using getLocation_full [of s k now] by (simp add: MAX_QUEUE_SIZE_def emptyInfo_def)
qed

theorem queue_bounded_witness:
  "MAX_QUEUE_SIZE \<le> length (requestQueue fullState) \<and>
   fst (cacheCheck ''alice'' 0 fullState) = None \<and>
   pendingLocationRequests fullState ''alice'' = None \<and>
   fst (getLocation ''alice'' 0 fullState) = Return emptyInfo \<and>
   requestQueue (snd (getLocation ''alice'' 0 fullState)) = requestQueue fullState"
  using queue_bounded [of "[]" fullState "''alice''" 0]
  by (simp add: fullState_def MAX_QUEUE_SIZE_def cacheCheck_def initialState_def)

section \<open>Timeouts and rate-limited answers\<close>

lemma saveCacheEntry_requests: "requests (saveCacheEntry valid k v now s) = requests s"
  by (simp add: saveCacheEntry_def updateStats_def Let_def split: option.splits)

lemma onLocationResponse_cache_rate_limited:
  "locationCache (onLocationResponse rid loc True now valid s) = locationCache s"
  by (simp add: onLocationResponse_def Let_def)

lemma onRequestTimeout_outcome:
  "rid < length (requests s) \<Longrightarrow>
   outcome (requests (onRequestTimeout rid s) ! rid) = resolvePromise None (outcome (requests s ! rid))"
  by (simp add: onRequestTimeout_def Let_def)

lemma onRequestTimeout_not_listening:
  "rid < length (requests s) \<Longrightarrow> \<not> listening (requests (onRequestTimeout rid s) ! rid)"
  by (simp add: onRequestTimeout_def Let_def)

lemma onLocationResponse_after_timeout:
  "onLocationResponse rid loc rl now valid (onRequestTimeout rid s) = onRequestTimeout rid s"
proof (cases "rid < length (requests s)")
  case True
  then have "\<not> (rid < length (requests (onRequestTimeout rid s)) \<and>
               listening (requests (onRequestTimeout rid s) ! rid))"
    using onRequestTimeout_not_listening by blast
  then show ?thesis unfolding onLocationResponse_def by (rule if_not_P)
next
  case False
  then show ?thesis by (simp add: onLocationResponse_def onRequestTimeout_def)
qed

lemma resumeAfterRequest_task:
  assumes "drainState s = AwaitRequest k pid rid" and "rid < length (requests s)"
    and "outcome (requests s ! rid) = Resolved v" and "pid < length (promises s)"
  shows "promises (resumeAfterRequest now s) ! pid = resolvePromise v (promises s ! pid)"
  using assms
  by (simp add: resumeAfterRequest_def Let_def drainLoop_frame taskResolve_def)


text \<open>
  The timeout of a request writes nothing to the cache and resolves the request's
  promise with \<open>null\<close> if it is still pending (it never rejects); an answer that arrives
  after the timeout is ignored. An answer flagged as rate-limited writes nothing to the
  cache. The resumed \<open>processRequestQueue\<close> writes nothing to the cache either and
  resolves the task with the same \<open>null\<close>, so the waiting \<open>getLocation\<close> returns the empty
  result.
\<close>

theorem timeout_and_rate_limited_not_cached:
  "locationCache (onRequestTimeout rid s) = locationCache s \<and>
   (rid < length (requests s) \<longrightarrow>
      outcome (requests (onRequestTimeout rid s) ! rid)
        = resolvePromise None (outcome (requests s ! rid)) \<and>
      (outcome (requests s ! rid) = Pending \<longrightarrow>
         outcome (requests (onRequestTimeout rid s) ! rid) = Resolved None)) \<and>
   onLocationResponse rid loc rl now valid (onRequestTimeout rid s) = onRequestTimeout rid s \<and>
   locationCache (onLocationResponse rid loc True now valid s) = locationCache s \<and>
   locationCache (resumeAfterRequest now s) = locationCache s \<and>
   (drainState s = AwaitRequest k pid rid \<and> rid < length (requests s) \<and>
    outcome (requests s ! rid) = Resolved None \<and> pid < length (promises s) \<and>
    promises s ! pid = Pending \<longrightarrow>
      promises (resumeAfterRequest now s) ! pid = Resolved None \<and>
      afterAwaitOwn pid (resumeAfterRequest now s) = Some (Inr emptyInfo))"
proof -
  have a: "outcome (requests s ! rid) = Pending \<Longrightarrow> rid < length (requests s) \<Longrightarrow>
      outcome (requests (onRequestTimeout rid s) ! rid) = Resolved None"
    by (simp add: onRequestTimeout_outcome)
  have b: "promises (resumeAfterRequest now s) ! pid = Resolved None \<and>
      afterAwaitOwn pid (resumeAfterRequest now s) = Some (Inr emptyInfo)"
    if h: "drainState s = AwaitRequest k pid rid" "rid < length (requests s)"
      "outcome (requests s ! rid) = Resolved None" "pid < length (promises s)"
      "promises s ! pid = Pending"
  proof -
    have p: "promises (resumeAfterRequest now s) ! pid = Resolved None"
      using resumeAfterRequest_task [OF h(1-4)] h(5) by simp
    have "length (promises (resumeAfterRequest now s)) = length (promises s)"
      using h(1-3) by (simp add: resumeAfterRequest_def Let_def drainLoop_frame taskResolve_def)
    with p h(4) show ?thesis by (simp add: afterAwaitOwn_def createLocationInfo_def)
  qed
  show ?thesis
    using a b
    by (simp add: onRequestTimeout_frame onRequestTimeout_outcome
        onLocationResponse_after_timeout onLocationResponse_cache_rate_limited
        resumeAfterRequest_frame)
qed

theorem timeout_and_rate_limited_not_cached_witness:
  "(0::nat) < length (requests (run [GetLocation ''alice'' 5000] initialState)) \<and>
   outcome (requests (run [GetLocation ''alice'' 5000] initialState) ! 0) = Pending \<and>
   outcome (requests (run [GetLocation ''alice'' 5000, RequestTimeout 0] initialState) ! 0)
     = Resolved None \<and>
   drainState (run [GetLocation ''alice'' 5000, RequestTimeout 0] initialState)
     = AwaitRequest ''alice'' 0 0 \<and>
   promises (run [GetLocation ''alice'' 5000, RequestTimeout 0, RequestSettled 15000]
     initialState) ! 0 = Resolved None \<and>
   locationCache (run [GetLocation ''alice'' 5000, RequestTimeout 0, RequestSettled 15000]
     initialState) ''alice'' = None \<and>
   fst (getLocation ''alice'' 20000
     (run [GetLocation ''alice'' 5000, RequestTimeout 0, RequestSettled 15000] initialState))
     = AwaitOwn 1"
  using timeout_and_rate_limited_not_cached
      [where s = "run [GetLocation ''alice'' 5000] initialState" and rid = 0]
    timeout_and_rate_limited_not_cached
      [where s = "run [GetLocation ''alice'' 5000, RequestTimeout 0] initialState"
         and rid = 0 and k = "''alice''" and pid = 0 and now = 15000]
  by (simp add: exec_simps)

section \<open>How promises settle\<close>

lemma resolvePromise_not_rejected: "p \<noteq> Rejected e \<Longrightarrow> resolvePromise v p \<noteq> Rejected e"
  by (cases p) simp_all

lemma resolvePromise_settled: "resolvePromise v p \<noteq> Pending"
  by (cases p) simp_all

lemma noRequestRejected_update:
  assumes "noRequestRejected s" and "rid < length (requests s)"
    and "requests s' = (requests s)[rid := r]"
    and "\<And>e. outcome r \<noteq> Rejected e"
  shows "noRequestRejected s'"
  unfolding noRequestRejected_def
proof (intro ballI allI)
  fix x e assume "x \<in> set (requests s')"
  then have "x \<in> insert r (set (requests s))"
    using assms(3) set_update_subset_insert by fastforce
  then show "outcome x \<noteq> Rejected e"
    using assms(1,4) unfolding noRequestRejected_def by auto
qed

lemma noRequestRejected_frame:
  "requests s' = requests s \<Longrightarrow> noRequestRejected s \<Longrightarrow> noRequestRejected s'"
  by (simp add: noRequestRejected_def)

lemma noRequestRejected_nth:
  "noRequestRejected s \<Longrightarrow> rid < length (requests s) \<Longrightarrow> outcome (requests s ! rid) \<noteq> Rejected e"
  unfolding noRequestRejected_def using nth_mem by blast

lemma dispatch_noRequestRejected: "noRequestRejected s \<Longrightarrow> noRequestRejected (dispatch now s)"
  by (auto simp add: noRequestRejected_def dispatch_def makeLocationRequest_def Let_def
      split: list.splits prod.splits)

lemma drainLoop_noRequestRejected: "noRequestRejected s \<Longrightarrow> noRequestRejected (drainLoop now s)"
proof -
  assume a: "noRequestRejected s"
  have "noRequestRejected (dispatch now s)" using a by (rule dispatch_noRequestRejected)
  moreover have "noRequestRejected (s\<lparr>drainState := d, timers := t\<rparr>)" for d t
    using a by (simp add: noRequestRejected_def)
  moreover have "noRequestRejected (s\<lparr>isProcessingQueue := False, drainState := NotSuspended\<rparr>)"
    using a by (simp add: noRequestRejected_def)
  ultimately show ?thesis by (simp add: drainLoop_def Let_def)
qed

lemma processRequestQueue_noRequestRejected:
  "noRequestRejected s \<Longrightarrow> noRequestRejected (processRequestQueue now s)"
proof -
  assume a: "noRequestRejected s"
  have 1: "noRequestRejected (drainLoop now t)" if "requests t = requests s" for t
    using that a by (auto intro: drainLoop_noRequestRejected noRequestRejected_frame)
  have 2: "noRequestRejected t" if "requests t = requests s" for t
    using that a by (rule noRequestRejected_frame)
  show ?thesis
    by (simp add: processRequestQueue_def Let_def 1 2 rejectAll_frame resetRateLimit_def a)
qed

lemma getLocation_noRequestRejected:
  "noRequestRejected s \<Longrightarrow> noRequestRejected (snd (getLocation k now s))"
proof -
  assume a: "noRequestRejected s"
  obtain r s1 where cc: "cacheCheck k now s = (r, s1)" by (cases "cacheCheck k now s")
  then have "requests s1 = requests s" using cacheCheck_rest(3) [of k now s] by simp
  then have s1: "noRequestRejected s1" using a by (rule noRequestRejected_frame)
  let ?s2 = "s1\<lparr>promises := promises s1 @ [Pending],
                 requestQueue := requestQueue s1 @ [(k, length (promises s1))]\<rparr>"
  have "noRequestRejected ?s2" using s1 by (simp add: noRequestRejected_def)
  then have "noRequestRejected (processRequestQueue now ?s2)"
    by (rule processRequestQueue_noRequestRejected)
  then have "noRequestRejected ((processRequestQueue now ?s2)\<lparr>pendingLocationRequests := m\<rparr>)" for m
    by (simp add: noRequestRejected_def)
  then show ?thesis using s1 cc
    by (simp add: getLocation_def Let_def split: option.splits)
qed

lemma onRequestTimeout_noRequestRejected:
  "noRequestRejected s \<Longrightarrow> noRequestRejected (onRequestTimeout rid s)"
proof (cases "rid < length (requests s)")
  case False
  assume "noRequestRejected s" with False show ?thesis by (simp add: onRequestTimeout_def)
next
  case True
  assume a: "noRequestRejected s"
  show ?thesis
  proof (rule noRequestRejected_update [OF a True])
    show "requests (onRequestTimeout rid s) =
      (requests s)[rid := (requests s ! rid)\<lparr>listening := False,
         outcome := resolvePromise None (outcome (requests s ! rid))\<rparr>]"
      using True by (simp add: onRequestTimeout_def Let_def)
    show "\<And>e. outcome ((requests s ! rid)\<lparr>listening := False,
         outcome := resolvePromise None (outcome (requests s ! rid))\<rparr>) \<noteq> Rejected e"
      using noRequestRejected_nth [OF a True] by (simp add: resolvePromise_not_rejected)
  qed
qed

lemma onLocationResponse_requests:
  "rid < length (requests s) \<Longrightarrow> listening (requests s ! rid) \<Longrightarrow>
   requests (onLocationResponse rid loc rl now valid s) =
     (requests s)[rid := (requests s ! rid)\<lparr>listening := False,
        outcome := resolvePromise (orNull loc) (outcome (requests s ! rid))\<rparr>]"
  by (simp add: onLocationResponse_def Let_def saveCacheEntry_requests)

lemma onLocationResponse_noRequestRejected:
  "noRequestRejected s \<Longrightarrow> noRequestRejected (onLocationResponse rid loc rl now valid s)"
proof (cases "rid < length (requests s) \<and> listening (requests s ! rid)")
  case False
  assume a: "noRequestRejected s"
  from False have "onLocationResponse rid loc rl now valid s = s"
    unfolding onLocationResponse_def by (rule if_not_P)
  with a show ?thesis by simp
next
  case True
  assume a: "noRequestRejected s"
  from True have len: "rid < length (requests s)" and li: "listening (requests s ! rid)" by simp_all
  show ?thesis
  proof (rule noRequestRejected_update [OF a len])
    show "requests (onLocationResponse rid loc rl now valid s) =
      (requests s)[rid := (requests s ! rid)\<lparr>listening := False,
        outcome := resolvePromise (orNull loc) (outcome (requests s ! rid))\<rparr>]"
      using len li by (rule onLocationResponse_requests)
    show "\<And>e. outcome ((requests s ! rid)\<lparr>listening := False,
        outcome := resolvePromise (orNull loc) (outcome (requests s ! rid))\<rparr>) \<noteq> Rejected e"
      using noRequestRejected_nth [OF a len] by (simp add: resolvePromise_not_rejected)
  qed
qed

lemma resumeAfterRequest_noRequestRejected:
  "noRequestRejected s \<Longrightarrow> noRequestRejected (resumeAfterRequest now s)"
proof -
  assume a: "noRequestRejected s"
  have 1: "noRequestRejected (drainLoop now t)" if "requests t = requests s" for t
    using that a by (auto intro: drainLoop_noRequestRejected noRequestRejected_frame)
  show ?thesis
    by (simp add: resumeAfterRequest_def Let_def 1 a taskResolve_def taskReject_def
        split: drain.splits promise.splits)
qed

lemma resumeAfterPacing_noRequestRejected:
  "noRequestRejected s \<Longrightarrow> noRequestRejected (resumeAfterPacing now s)"
  by (simp add: resumeAfterPacing_def dispatch_noRequestRejected split: drain.splits)

lemma loadCache_requests: "requests (loadCache cached now s) = requests s"
  unfolding loadCache_def
  by (induction cached arbitrary: s)
     (simp_all add: loadEntry_def Let_def split: prod.splits option.splits)

lemma step_noRequestRejected: "noRequestRejected s \<Longrightarrow> noRequestRejected (step ev s)"
proof (cases ev)
  case (GetLocation k now)
  assume "noRequestRejected s"
  then show ?thesis using GetLocation by (simp add: getLocation_noRequestRejected)
next
  case (RateLimitInfo r now)
  assume "noRequestRejected s"
  then show ?thesis using RateLimitInfo
    by (simp add: noRequestRejected_def onRateLimitInfo_def Let_def)
next
  case (LocationResponse rid loc rl now valid)
  assume "noRequestRejected s"
  then show ?thesis using LocationResponse by (simp add: onLocationResponse_noRequestRejected)
next
  case (RequestTimeout rid)
  assume "noRequestRejected s"
  then show ?thesis using RequestTimeout by (simp add: onRequestTimeout_noRequestRejected)
next
  case (RequestSettled now)
  assume "noRequestRejected s"
  then show ?thesis using RequestSettled by (simp add: resumeAfterRequest_noRequestRejected)
next
  case (PacingElapsed now)
  assume "noRequestRejected s"
  then show ?thesis using PacingElapsed by (simp add: resumeAfterPacing_noRequestRejected)
next
  case (ProcessQueueTimer now)
  assume "noRequestRejected s"
  then show ?thesis using ProcessQueueTimer by (simp add: processRequestQueue_noRequestRejected)
next
  case (LoadCache cached now)
  assume "noRequestRejected s"
  then show ?thesis using LoadCache
    by (simp add: noRequestRejected_frame [OF loadCache_requests])
next
  case ResetStats
  assume "noRequestRejected s"
  then show ?thesis using ResetStats by (simp add: noRequestRejected_def resetStats_def)
qed

lemma run_noRequestRejected: "noRequestRejected s \<Longrightarrow> noRequestRejected (run es s)"
  unfolding run_def
proof (induction es arbitrary: s)
  case Nil
  then show ?case by simp
next
  case (Cons ev es)
  from Cons.prems have "noRequestRejected (step ev s)" by (rule step_noRequestRejected)
  with Cons.IH show ?case by simp
qed


lemma noRequestRejected_initial: "noRequestRejected initialState"
  by (simp add: noRequestRejected_def initialState_def)

text \<open>Which promises the operations settle.\<close>

lemma rejectAll_new_rejection:
  assumes "pid < length (promises s)" and "promises (rejectAll q s) ! pid = Rejected err"
    and "promises s ! pid \<noteq> Rejected err"
  shows "err = ''Rate limited''"
proof -
  from assms(2) rejectAll_promises [OF assms(1), of q]
  have "(if pid \<in> snd ` set q then rejectPromise ''Rate limited'' (promises s ! pid)
         else promises s ! pid) = Rejected err" by simp
  with assms(3) show ?thesis by (cases "promises s ! pid") (auto split: if_splits)
qed

lemma processRequestQueue_promises:
  "promises (processRequestQueue now s) =
     (if \<not> isProcessingQueue s \<and> requestQueue s \<noteq> [] \<and> isRateLimited now s
      then promises (rejectAll (requestQueue s) s) else promises s)"
  by (simp add: processRequestQueue_def Let_def drainLoop_frame resetRateLimit_def)

lemma processRequestQueue_new_rejection:
  assumes "pid < length (promises s)" and "promises (processRequestQueue now s) ! pid = Rejected err"
    and "promises s ! pid \<noteq> Rejected err"
  shows "err = ''Rate limited'' \<and> isRateLimited now s \<and> \<not> isProcessingQueue s"
proof (cases "\<not> isProcessingQueue s \<and> requestQueue s \<noteq> [] \<and> isRateLimited now s")
  case True
  with assms(2) have "promises (rejectAll (requestQueue s) s) ! pid = Rejected err"
    by (simp add: processRequestQueue_promises)
  from rejectAll_new_rejection [OF assms(1) this assms(3)] True show ?thesis by simp
next
  case False
  with assms(2,3) show ?thesis by (simp add: processRequestQueue_promises)
qed

lemma processRequestQueue_length:
  "length (promises (processRequestQueue now s)) = length (promises s)"
  by (simp add: processRequestQueue_promises rejectAll_frame)

lemma getLocation_new_rejection:
  assumes "pid < length (promises (snd (getLocation k now s)))"
    and "promises (snd (getLocation k now s)) ! pid = Rejected err"
    and "\<not> (pid < length (promises s) \<and> promises s ! pid = Rejected err)"
  shows "err = ''Rate limited'' \<and> isRateLimited now s \<and> \<not> isProcessingQueue s"
proof -
  obtain r s1 where cc: "cacheCheck k now s = (r, s1)" by (cases "cacheCheck k now s")
  with cacheCheck_rest [of k now s]
  have eqs: "promises s1 = promises s" "isProcessingQueue s1 = isProcessingQueue s"
    "rateLimitResetTime s1 = rateLimitResetTime s" by simp_all
  let ?s2 = "s1\<lparr>promises := promises s1 @ [Pending],
                 requestQueue := requestQueue s1 @ [(k, length (promises s1))]\<rparr>"
  show ?thesis
  proof (cases "r = None \<and> pendingLocationRequests s1 k = None \<and>
                 \<not> MAX_QUEUE_SIZE \<le> length (requestQueue s1)")
    case False
    then have "promises (snd (getLocation k now s)) = promises s"
      using cc eqs by (auto simp add: getLocation_def Let_def split: option.splits)
    with assms show ?thesis by simp
  next
    case True
    then have g: "promises (snd (getLocation k now s)) = promises (processRequestQueue now ?s2)"
      using cc by (simp add: getLocation_def Let_def)
    have len: "pid < length (promises ?s2)"
      using assms(1) by (simp add: g processRequestQueue_length)
    have old: "promises ?s2 ! pid \<noteq> Rejected err"
      using assms(3) len eqs by (auto simp add: nth_append)
    from assms(2) have "promises (processRequestQueue now ?s2) ! pid = Rejected err"
      by (simp add: g)
    from processRequestQueue_new_rejection [OF len this old]
    have "err = ''Rate limited'' \<and> isRateLimited now ?s2 \<and> \<not> isProcessingQueue ?s2" .
    moreover have "isRateLimited now ?s2 = isRateLimited now s"
      by (simp add: isRateLimited_def eqs)
    moreover have "isProcessingQueue ?s2 = isProcessingQueue s" by (simp add: eqs)
    ultimately show ?thesis by simp
  qed
qed

lemma resumeAfterRequest_new_rejection:
  assumes "noRequestRejected s"
    and "promises (resumeAfterRequest now s) ! pid = Rejected err"
  shows "promises s ! pid = Rejected err"
proof (cases "drainState s")
  case NotSuspended
  with assms(2) show ?thesis by (simp add: resumeAfterRequest_def)
next
  case AwaitPacing
  with assms(2) show ?thesis by (simp add: resumeAfterRequest_def)
next
  case (AwaitRequest k p rid)
  show ?thesis
  proof (cases "rid < length (requests s)")
    case False
    with assms(2) AwaitRequest show ?thesis by (simp add: resumeAfterRequest_def)
  next
    case True
    show ?thesis
    proof (cases "outcome (requests s ! rid)")
      case Pending
      with assms(2) AwaitRequest True show ?thesis by (simp add: resumeAfterRequest_def)
    next
      case (Rejected e)
      with noRequestRejected_nth [OF assms(1) True, of e] show ?thesis by simp
    next
      case (Resolved v)
      have "promises (resumeAfterRequest now s) =
          (promises s)[p := resolvePromise v (promises s ! p)]"
        using AwaitRequest True Resolved
        by (simp add: resumeAfterRequest_def Let_def drainLoop_frame taskResolve_def)
      moreover have "(promises s)[p := x] ! pid =
          (if pid = p \<and> p < length (promises s) then x else promises s ! pid)" for x
        by (cases "p < length (promises s)") (simp_all add: nth_list_update list_update_beyond)
      ultimately have "(if pid = p \<and> p < length (promises s)
          then resolvePromise v (promises s ! p) else promises s ! pid) = Rejected err"
        using assms(2) by simp
      then show ?thesis
        by (cases "promises s ! p") (auto split: if_splits)
    qed
  qed
qed

lemma onRequestTimeout_promises: "promises (onRequestTimeout rid s) = promises s"
  by (simp add: onRequestTimeout_def Let_def)

lemma loadCache_promises: "promises (loadCache cached now s) = promises s"
  unfolding loadCache_def
  by (induction cached arbitrary: s)
     (simp_all add: loadEntry_def Let_def split: prod.splits option.splits)

lemma onLocationResponse_promises:
  "promises (onLocationResponse rid loc rl now valid s) = promises s"
  by (simp add: onLocationResponse_def saveCacheEntry_def updateStats_def Let_def
      split: option.splits)

lemma resumeAfterRequest_length:
  "length (promises (resumeAfterRequest now s)) = length (promises s)"
  by (simp add: resumeAfterRequest_def Let_def drainLoop_frame taskResolve_def taskReject_def
      split: drain.splits promise.splits)

lemma step_new_rejection:
  assumes inv: "noRequestRejected s"
    and len: "pid < length (promises (step ev s))"
    and rej: "promises (step ev s) ! pid = Rejected err"
    and new: "\<not> (pid < length (promises s) \<and> promises s ! pid = Rejected err)"
  shows "err = ''Rate limited'' \<and>
         (\<exists>k now. (ev = GetLocation k now \<or> ev = ProcessQueueTimer now) \<and>
                   isRateLimited now s \<and> \<not> isProcessingQueue s)"
proof (cases ev)
  case (GetLocation k now)
  with getLocation_new_rejection [of pid k now s err] len rej new show ?thesis by auto
next
  case (RateLimitInfo r now)
  with len rej new show ?thesis by (simp add: onRateLimitInfo_def Let_def)
next
  case (LocationResponse rid loc rl now valid)
  with len rej new show ?thesis by (simp add: onLocationResponse_promises)
next
  case (RequestTimeout rid)
  with len rej new show ?thesis by (simp add: onRequestTimeout_promises)
next
  case (RequestSettled now)
  with len rej new resumeAfterRequest_new_rejection [OF inv, of now pid err]
  show ?thesis by (simp add: resumeAfterRequest_length)
next
  case (PacingElapsed now)
  with len rej new show ?thesis
    by (simp add: resumeAfterPacing_def dispatch_frame split: drain.splits)
next
  case (ProcessQueueTimer now)
  with len rej new processRequestQueue_new_rejection [of pid s now err]
  show ?thesis by (auto simp add: processRequestQueue_length)
next
  case (LoadCache cached now)
  with len rej new show ?thesis by (simp add: loadCache_promises)
next
  case ResetStats
  with len rej new show ?thesis by (simp add: resetStats_def)
qed


text \<open>
  C10. In every state the module reaches, no promise returned by \<open>makeLocationRequest\<close>
  is rejected. A request is made pending, with its timeout armed at 10000 milliseconds;
  its answer resolves it with the remote value, or with \<open>null\<close> when the answer is empty;
  its timeout resolves it with \<open>null\<close>, after which it is settled. Hence, whenever an
  event in a reachable state rejects a task's promise that was not rejected before, the
  error is \<open>Rate limited\<close> and the event is a call of \<open>processRequestQueue\<close> (from
  \<open>getLocation\<close> or from a timer) made while the rate-limit window is open and no other
  call of it is in progress: the purge of the queue.
\<close>

theorem request_promise_never_rejects:
  "(\<forall>r \<in> set (requests (run es initialState)). \<forall>e. outcome r \<noteq> Rejected e) \<and>
   makeLocationRequest k s =
     (length (requests s),
      s\<lparr>requests := requests s @
                       [\<lparr>reqScreenName = k, listening = True, outcome = Pending\<rparr>],
        timers := timers s @ [(10000, RequestTimeoutCB (length (requests s)))]\<rparr>) \<and>
   (rid < length (requests s) \<longrightarrow>
      outcome (requests (onRequestTimeout rid s) ! rid)
        = resolvePromise None (outcome (requests s ! rid)) \<and>
      outcome (requests (onRequestTimeout rid s) ! rid) \<noteq> Pending) \<and>
   (rid < length (requests s) \<and> listening (requests s ! rid) \<longrightarrow>
      outcome (requests (onLocationResponse rid loc rl now valid s) ! rid)
        = resolvePromise (orNull loc) (outcome (requests s ! rid))) \<and>
   orNull None = None \<and> orNull (Some []) = None \<and> (l \<noteq> [] \<longrightarrow> orNull (Some l) = Some l) \<and>
   (\<forall>pid err.
      pid < length (promises (step ev (run es initialState))) \<and>
      promises (step ev (run es initialState)) ! pid = Rejected err \<and>
      \<not> (pid < length (promises (run es initialState)) \<and>
         promises (run es initialState) ! pid = Rejected err) \<longrightarrow>
      err = ''Rate limited'' \<and>
      (\<exists>k t. (ev = GetLocation k t \<or> ev = ProcessQueueTimer t) \<and>
              isRateLimited t (run es initialState) \<and>
              \<not> isProcessingQueue (run es initialState)))"
proof -
  have inv: "noRequestRejected (run es initialState)"
    using noRequestRejected_initial by (rule run_noRequestRejected)
  then have a: "\<forall>r \<in> set (requests (run es initialState)). \<forall>e. outcome r \<noteq> Rejected e"
    by (simp add: noRequestRejected_def)
  have b: "rid < length (requests s) \<Longrightarrow>
      outcome (requests (onRequestTimeout rid s) ! rid)
        = resolvePromise None (outcome (requests s ! rid)) \<and>
      outcome (requests (onRequestTimeout rid s) ! rid) \<noteq> Pending"
    by (simp add: onRequestTimeout_outcome resolvePromise_settled)
  have c: "rid < length (requests s) \<Longrightarrow> listening (requests s ! rid) \<Longrightarrow>
      outcome (requests (onLocationResponse rid loc rl now valid s) ! rid)
        = resolvePromise (orNull loc) (outcome (requests s ! rid))"
    by (simp add: onLocationResponse_requests)
  have d: "orNull None = None \<and> orNull (Some []) = None \<and> (l \<noteq> [] \<longrightarrow> orNull (Some l) = Some l)"
    by (simp add: orNull_def)
  have e: "err = ''Rate limited'' \<and>
      (\<exists>k t. (ev = GetLocation k t \<or> ev = ProcessQueueTimer t) \<and>
              isRateLimited t (run es initialState) \<and>
              \<not> isProcessingQueue (run es initialState))"
    if "pid < length (promises (step ev (run es initialState)))"
      "promises (step ev (run es initialState)) ! pid = Rejected err"
      "\<not> (pid < length (promises (run es initialState)) \<and>
         promises (run es initialState) ! pid = Rejected err)" for pid err
    using step_new_rejection [OF inv that] .
  have f: "makeLocationRequest k s =
     (length (requests s),
      s\<lparr>requests := requests s @
                       [\<lparr>reqScreenName = k, listening = True, outcome = Pending\<rparr>],
        timers := timers s @ [(10000, RequestTimeoutCB (length (requests s)))]\<rparr>)"
    by (simp add: makeLocationRequest_def Let_def REQUEST_TIMEOUT_def)
  show ?thesis using a b c d e f by blast
qed

theorem request_promise_never_rejects_witness:
  "(0::nat) < length (requests (run [GetLocation ''alice'' 5000] initialState)) \<and>
   listening (requests (run [GetLocation ''alice'' 5000] initialState) ! 0) \<and>
   outcome (requests (onLocationResponse 0 (Some ''France'') False 6000 True
              (run [GetLocation ''alice'' 5000] initialState)) ! 0) = Resolved (Some ''France'') \<and>
   outcome (requests (onRequestTimeout 0
              (run [GetLocation ''alice'' 5000] initialState)) ! 0) = Resolved None \<and>
   (0::nat) < length (promises (step (GetLocation ''alice'' 1001000)
                        (run [RateLimitInfo 2000 1000000] initialState))) \<and>
   promises (step (GetLocation ''alice'' 1001000)
               (run [RateLimitInfo 2000 1000000] initialState)) ! 0 = Rejected ''Rate limited'' \<and>
   \<not> (0 < length (promises (run [RateLimitInfo 2000 1000000] initialState))) \<and>
   isRateLimited 1001000 (run [RateLimitInfo 2000 1000000] initialState) \<and>
   \<not> isProcessingQueue (run [RateLimitInfo 2000 1000000] initialState)"
proof -
  let ?s = "run [GetLocation ''alice'' 5000] initialState"
  let ?t = "run [RateLimitInfo 2000 1000000] initialState"
  let ?ev = "GetLocation ''alice'' 1001000"
  have r1: "(0::nat) < length (requests ?s)" and r2: "listening (requests ?s ! 0)"
    and r3: "outcome (requests ?s ! 0) = Pending"
    by (simp_all add: exec_simps)
  note thm1 = request_promise_never_rejects
      [where es = "[]" and rid = 0 and s = ?s and loc = "Some ''France''" and rl = False
         and now = 6000 and valid = True]
  from thm1 [THEN conjunct2, THEN conjunct2, THEN conjunct1] r1 r3
  have t: "outcome (requests (onRequestTimeout 0 ?s) ! 0) = Resolved None" by simp
  from thm1 [THEN conjunct2, THEN conjunct2, THEN conjunct2, THEN conjunct1] r1 r2 r3
  have a: "outcome (requests (onLocationResponse 0 (Some ''France'') False 6000 True ?s) ! 0)
      = Resolved (Some ''France'')" by (simp add: orNull_def)
  have p1: "(0::nat) < length (promises (step ?ev ?t))"
    and p2: "promises (step ?ev ?t) ! 0 = Rejected ''Rate limited''"
    and p3: "\<not> (0 < length (promises ?t))"
    by (simp_all add: exec_simps)
  note thm2 = request_promise_never_rejects [where es = "[RateLimitInfo 2000 1000000]" and ev = ?ev]
  from thm2 [THEN conjunct2, THEN conjunct2, THEN conjunct2, THEN conjunct2, THEN conjunct2,
      THEN conjunct2, THEN conjunct2, rule_format, of 0 "''Rate limited''"] p1 p2 p3
  have q: "isRateLimited 1001000 ?t \<and> \<not> isProcessingQueue ?t" by blast
  show ?thesis using r1 r2 t a p1 p2 p3 q by blast
qed

section \<open>Single flight\<close>

text \<open>
  A call for a key that is not cached and has a registration makes no request and
  queues nothing: it waits on the registered promise.
\<close>

lemma getLocation_shares_pending:
  assumes "fst (cacheCheck k now s) = None" and "pendingLocationRequests s k = Some pid"
  shows "fst (getLocation k now s) = AwaitPending pid"
    "requests (snd (getLocation k now s)) = requests s"
    "requestQueue (snd (getLocation k now s)) = requestQueue s"
    "promises (snd (getLocation k now s)) = promises s"
proof -
  obtain r s1 where cc: "cacheCheck k now s = (r, s1)" by (cases "cacheCheck k now s")
  with cacheCheck_rest [of k now s] assms
  have eqs: "r = None" "requestQueue s1 = requestQueue s" "promises s1 = promises s"
    "requests s1 = requests s" "pendingLocationRequests s1 k = Some pid" by simp_all
  have g: "getLocation k now s = (AwaitPending pid, s1)"
    using cc eqs by (simp add: getLocation_def)
  show "fst (getLocation k now s) = AwaitPending pid"
    "requests (snd (getLocation k now s)) = requests s"
    "requestQueue (snd (getLocation k now s)) = requestQueue s"
    "promises (snd (getLocation k now s)) = promises s"
    using eqs by (simp_all add: g)
qed

text \<open>
  C2 fails on the code. A throttling signal at second 1000 opens a window until second
  2000. One second later \<open>getLocation\<close> is called for alice, who is neither cached nor
  pending: the task it queues is rejected at once by the purge, inside the constructor of
  the promise, and only then is the promise registered. The registration of the already
  rejected promise stays; nothing was dispatched. A call for alice at second 3000, after
  the window has lapsed, still finds the registration, waits on the rejected promise and
  throws \<open>Rate limited\<close>, and again dispatches nothing.
\<close>

theorem rejected_promise_stays_registered:
  "pendingLocationRequests
     (run [RateLimitInfo 2000 1000000, GetLocation ''alice'' 1001000] initialState) ''alice''
     = Some 0 \<and>
   promises (run [RateLimitInfo 2000 1000000, GetLocation ''alice'' 1001000] initialState)
     = [Rejected ''Rate limited''] \<and>
   requestQueue (run [RateLimitInfo 2000 1000000, GetLocation ''alice'' 1001000] initialState)
     = [] \<and>
   requests (run [RateLimitInfo 2000 1000000, GetLocation ''alice'' 1001000] initialState)
     = [] \<and>
   \<not> isRateLimited 3000000
     (run [RateLimitInfo 2000 1000000, GetLocation ''alice'' 1001000] initialState) \<and>
   fst (getLocation ''alice'' 3000000
     (run [RateLimitInfo 2000 1000000, GetLocation ''alice'' 1001000] initialState))
     = AwaitPending 0 \<and>
   afterAwaitPending ''alice'' 0 3000000
     (run [RateLimitInfo 2000 1000000, GetLocation ''alice'' 1001000,
           GetLocation ''alice'' 3000000] initialState)
     = Some (Inl ''Rate limited'') \<and>
   requests (run [RateLimitInfo 2000 1000000, GetLocation ''alice'' 1001000,
                  GetLocation ''alice'' 3000000] initialState) = []"
  by (simp add: exec_simps afterAwaitPending_def)


subsection \<open>The stale registration is permanent\<close>

lemma stuck_frame:
  assumes "stuck K p s"
    and "pendingLocationRequests s' K = pendingLocationRequests s K"
    and "promises s' = promises s" and "requestQueue s' = requestQueue s"
    and "requests s' = requests s" and "drainState s' = drainState s"
    and "locationCache s' K = locationCache s K"
  shows "stuck K p s'"
  using assms unfolding stuck_def by simp

lemma rejectPromise_rejected: "rejectPromise e (Rejected e') = Rejected e'"
  by simp

lemma stuck_rejectAll:
  assumes "stuck K p s" and "K \<notin> fst ` set q"
  shows "stuck K p (rejectAll q s)"
proof -
  from assms(1) obtain e where e: "p < length (promises s)" "promises s ! p = Rejected e"
    unfolding stuck_def by blast
  have "promises (rejectAll q s) ! p = Rejected e"
    using rejectAll_promises [OF e(1), of q] e(2) by simp
  moreover have "pendingLocationRequests (rejectAll q s) K = pendingLocationRequests s K"
    using assms(2) by (simp add: rejectAll_pending)
  ultimately show ?thesis
    using assms(1) unfolding stuck_def by (simp add: rejectAll_frame)
qed

lemma stuck_dispatch: "stuck K p s \<Longrightarrow> stuck K p (dispatch now s)"
proof (cases "requestQueue s")
  case Nil
  assume "stuck K p s"
  with Nil show ?thesis by (simp add: dispatch_def stuck_def)
next
  case (Cons task rest)
  assume a: "stuck K p s"
  obtain k q where task: "task = (k, q)" by (cases task)
  from a Cons task have "k \<noteq> K" "K \<notin> fst ` set rest" unfolding stuck_def by auto
  with a Cons task show ?thesis
    by (simp add: dispatch_def makeLocationRequest_def Let_def stuck_def)
qed

lemma stuck_drainLoop: "stuck K p s \<Longrightarrow> stuck K p (drainLoop now s)"
proof -
  assume a: "stuck K p s"
  have 1: "stuck K p (s\<lparr>drainState := AwaitPacing, timers := t\<rparr>)" for t
    using a by (simp add: stuck_def)
  have 2: "stuck K p (s\<lparr>isProcessingQueue := False, drainState := NotSuspended\<rparr>)"
    using a by (simp add: stuck_def)
  show ?thesis by (simp add: drainLoop_def Let_def 1 2 stuck_dispatch [OF a])
qed

lemma stuck_processRequestQueue: "stuck K p s \<Longrightarrow> stuck K p (processRequestQueue now s)"
proof -
  assume a: "stuck K p s"
  then have q: "K \<notin> fst ` set (requestQueue s)" unfolding stuck_def by blast
  have 1: "stuck K p ((rejectAll (requestQueue s) s)\<lparr>requestQueue := [], timers := t\<rparr>)" for t
    using stuck_rejectAll [OF a q] by (simp add: stuck_def)
  have "stuck K p (resetRateLimit s\<lparr>isProcessingQueue := True\<rparr>)"
    using a by (simp add: stuck_def resetRateLimit_def)
  then have 2: "stuck K p (drainLoop now (resetRateLimit s\<lparr>isProcessingQueue := True\<rparr>))"
    by (rule stuck_drainLoop)
  have "stuck K p (s\<lparr>isProcessingQueue := True\<rparr>)" using a by (simp add: stuck_def)
  then have 3: "stuck K p (drainLoop now (s\<lparr>isProcessingQueue := True\<rparr>))"
    by (rule stuck_drainLoop)
  show ?thesis
    by (simp add: processRequestQueue_def Let_def a 1 2 3 rejectAll_frame)
qed

lemma stuck_cacheCheck: "stuck K p s \<Longrightarrow> stuck K p (snd (cacheCheck k now s))"
  by (auto simp add: cacheCheck_def stuck_def split: option.splits)

lemma stuck_getLocation_other:
  assumes "stuck K p s" and "k \<noteq> K"
  shows "stuck K p (snd (getLocation k now s))"
proof -
  obtain r s1 where cc: "cacheCheck k now s = (r, s1)" by (cases "cacheCheck k now s")
  with stuck_cacheCheck [OF assms(1), of k now] have s1: "stuck K p s1" by simp
  let ?s2 = "s1\<lparr>promises := promises s1 @ [Pending],
                 requestQueue := requestQueue s1 @ [(k, length (promises s1))]\<rparr>"
  have "stuck K p ?s2" using s1 assms(2) by (auto simp add: stuck_def nth_append)
  then have "stuck K p (processRequestQueue now ?s2)" by (rule stuck_processRequestQueue)
  then have "stuck K p ((processRequestQueue now ?s2)\<lparr>pendingLocationRequests :=
      (pendingLocationRequests (processRequestQueue now ?s2))(k \<mapsto> length (promises s1))\<rparr>)"
    using assms(2) by (simp add: stuck_def)
  then show ?thesis using s1 cc by (simp add: getLocation_def Let_def split: option.splits)
qed

lemma stuck_getLocation_same:
  assumes "stuck K p s"
  shows "getLocation K now s = (AwaitPending p, s)"
  using assms by (simp add: getLocation_def cacheCheck_def stuck_def)

lemma stuck_throws:
  assumes "stuck K p s"
  shows "\<exists>e. afterAwaitPending K p now s = Some (Inl e)"
  using assms by (auto simp add: afterAwaitPending_def stuck_def)

lemma stuck_saveCacheEntry:
  "stuck K p s \<Longrightarrow> k \<noteq> K \<Longrightarrow> stuck K p (saveCacheEntry valid k v now s)"
  by (simp add: saveCacheEntry_def updateStats_def Let_def stuck_def split: option.splits)

lemma set_update_image:
  "rid < length xs \<Longrightarrow> f y = f (xs ! rid) \<Longrightarrow> f ` set (xs[rid := y]) \<subseteq> f ` set xs"
proof
  fix z assume a: "rid < length xs" "f y = f (xs ! rid)" "z \<in> f ` set (xs[rid := y])"
  then obtain x where x: "x \<in> set (xs[rid := y])" "z = f x" by blast
  then have "x = y \<or> x \<in> set xs" using set_update_subset_insert by fastforce
  with a(1,2) x(2) show "z \<in> f ` set xs" using nth_mem by force
qed

lemma stuck_requests_update:
  assumes "stuck K p t" and "rid < length (requests t)"
    and "reqScreenName y = reqScreenName (requests t ! rid)"
  shows "stuck K p (t\<lparr>requests := (requests t)[rid := y]\<rparr>)"
proof -
  have "reqScreenName ` set ((requests t)[rid := y]) \<subseteq> reqScreenName ` set (requests t)"
    using assms(2,3) by (rule set_update_image)
  with assms(1) show ?thesis unfolding stuck_def by auto
qed

lemma stuck_request_name:
  "stuck K p t \<Longrightarrow> rid < length (requests t) \<Longrightarrow> reqScreenName (requests t ! rid) \<noteq> K"
  unfolding stuck_def using nth_mem by fastforce

lemma stuck_onLocationResponse:
  "stuck K p s \<Longrightarrow> stuck K p (onLocationResponse rid loc rl now valid s)"
proof (cases "rid < length (requests s) \<and> listening (requests s ! rid)")
  case False
  assume a: "stuck K p s"
  from False have "onLocationResponse rid loc rl now valid s = s"
    unfolding onLocationResponse_def by (rule if_not_P)
  with a show ?thesis by simp
next
  case True
  assume a: "stuck K p s"
  from True have len: "rid < length (requests s)" by simp
  define r where "r = requests s ! rid"
  define s1 where "s1 = s\<lparr>requests := (requests s)[rid := r\<lparr>listening := False\<rparr>]\<rparr>"
  define s2 where "s2 = (if \<not> rl then saveCacheEntry valid (reqScreenName r) (orNull loc) now s1
                         else s1)"
  define r2 where "r2 = requests s2 ! rid"
  have ne: "reqScreenName r \<noteq> K" unfolding r_def using a len by (rule stuck_request_name)
  have s1: "stuck K p s1"
    unfolding s1_def using a len by (rule stuck_requests_update) (simp add: r_def)
  have s2: "stuck K p s2" unfolding s2_def using s1 ne by (simp add: stuck_saveCacheEntry)
  have len2: "rid < length (requests s2)"
    using len by (simp add: s2_def s1_def saveCacheEntry_requests)
  have "stuck K p (s2\<lparr>requests := (requests s2)[rid := r2\<lparr>outcome := x\<rparr>]\<rparr>)" for x
    using s2 len2 by (rule stuck_requests_update) (simp add: r2_def)
  then show ?thesis using True
    by (simp only: onLocationResponse_def Let_def if_True r_def [symmetric] s1_def [symmetric]
        s2_def [symmetric] r2_def [symmetric] simp_thms)
qed

lemma stuck_onRequestTimeout: "stuck K p s \<Longrightarrow> stuck K p (onRequestTimeout rid s)"
proof (cases "rid < length (requests s)")
  case False
  assume "stuck K p s" with False show ?thesis by (simp add: onRequestTimeout_def)
next
  case True
  assume a: "stuck K p s"
  define r where "r = requests s ! rid"
  have ne: "reqScreenName r \<noteq> K" unfolding r_def using a True by (rule stuck_request_name)
  have "stuck K p (s\<lparr>requests := (requests s)[rid := r\<lparr>listening := False, outcome := x\<rparr>]\<rparr>)"
    for x
    using a True by (rule stuck_requests_update) (simp add: r_def)
  then have "stuck K p (s\<lparr>requests := (requests s)[rid := r\<lparr>listening := False, outcome := x\<rparr>],
      pendingLocationRequests := (pendingLocationRequests s)(reqScreenName r := None)\<rparr>)" for x
    using ne by (simp add: stuck_def)
  then show ?thesis using True
    by (simp add: onRequestTimeout_def Let_def r_def [symmetric])
qed

lemma resolvePromise_rejected: "resolvePromise v (Rejected e) = Rejected e"
  by simp

lemma stuck_task:
  assumes "stuck K p s" and "k \<noteq> K"
  shows "stuck K p (taskResolve k q v s)" "stuck K p (taskReject k q err s)"
proof -
  from assms(1) obtain e where e: "p < length (promises s)" "promises s ! p = Rejected e"
    unfolding stuck_def by blast
  have 1: "(promises s)[q := resolvePromise v (promises s ! q)] ! p = Rejected e"
    using e by (cases "q = p") simp_all
  have 2: "(promises s)[q := rejectPromise err (promises s ! q)] ! p = Rejected e"
    using e by (cases "q = p") simp_all
  show "stuck K p (taskResolve k q v s)"
    using assms 1 unfolding stuck_def taskResolve_def by simp
  show "stuck K p (taskReject k q err s)"
    using assms 2 unfolding stuck_def taskReject_def by simp
qed

lemma stuck_resumeAfterRequest: "stuck K p s \<Longrightarrow> stuck K p (resumeAfterRequest now s)"
proof (cases "drainState s")
  case NotSuspended
  assume "stuck K p s" with NotSuspended show ?thesis by (simp add: resumeAfterRequest_def)
next
  case AwaitPacing
  assume "stuck K p s" with AwaitPacing show ?thesis by (simp add: resumeAfterRequest_def)
next
  case (AwaitRequest k q rid)
  assume a: "stuck K p s"
  with AwaitRequest have ne: "k \<noteq> K" by (simp add: stuck_def)
  have fin: "stuck K p (drainLoop now (t\<lparr>activeRequests := x, timers := y\<rparr>))"
    if "stuck K p t" for t x y
  proof -
    from that have "stuck K p (t\<lparr>activeRequests := x, timers := y\<rparr>)" by (simp add: stuck_def)
    then show ?thesis by (rule stuck_drainLoop)
  qed
  have c0: "stuck K p (s\<lparr>consecutiveRateLimits := 0\<rparr>)" using a by (simp add: stuck_def)
  show ?thesis
    using AwaitRequest a
    by (simp add: resumeAfterRequest_def Let_def fin stuck_task [OF a ne] stuck_task [OF c0 ne]
        split: promise.splits)
qed

lemma stuck_resumeAfterPacing: "stuck K p s \<Longrightarrow> stuck K p (resumeAfterPacing now s)"
  by (simp add: resumeAfterPacing_def stuck_dispatch split: drain.splits)

lemma stuck_step:
  assumes "stuck K p s" and "\<And>cached now. ev \<noteq> LoadCache cached now"
  shows "stuck K p (step ev s)"
proof (cases ev)
  case (GetLocation k now)
  show ?thesis
  proof (cases "k = K")
    case True
    with GetLocation assms(1) show ?thesis by (simp add: stuck_getLocation_same)
  next
    case False
    with GetLocation assms(1) show ?thesis by (simp add: stuck_getLocation_other)
  qed
next
  case (RateLimitInfo r now)
  with assms(1) show ?thesis by (simp add: onRateLimitInfo_def Let_def stuck_def)
next
  case (LocationResponse rid loc rl now valid)
  with assms(1) show ?thesis by (simp add: stuck_onLocationResponse)
next
  case (RequestTimeout rid)
  with assms(1) show ?thesis by (simp add: stuck_onRequestTimeout)
next
  case (RequestSettled now)
  with assms(1) show ?thesis by (simp add: stuck_resumeAfterRequest)
next
  case (PacingElapsed now)
  with assms(1) show ?thesis by (simp add: stuck_resumeAfterPacing)
next
  case (ProcessQueueTimer now)
  with assms(1) show ?thesis by (simp add: stuck_processRequestQueue)
next
  case (LoadCache cached now)
  with assms(2) show ?thesis by blast
next
  case ResetStats
  with assms(1) show ?thesis by (simp add: resetStats_def stuck_def)
qed

lemma stuck_run:
  assumes "stuck K p s" and "\<forall>ev \<in> set es. \<forall>cached now. ev \<noteq> LoadCache cached now"
  shows "stuck K p (run es s)"
  using assms unfolding run_def
proof (induction es arbitrary: s)
  case Nil
  then show ?case by simp
next
  case (Cons ev es)
  from Cons.prems have "stuck K p (step ev s)" by (auto intro: stuck_step)
  with Cons show ?case by simp
qed

lemma stuck_after_purge:
  "stuck ''alice'' 0 (run [RateLimitInfo 2000 1000000, GetLocation ''alice'' 1001000] initialState)"
  by (simp add: stuck_def exec_simps)

text \<open>
  After that run, whatever happens next short of a reload of the cache, every call of
  \<open>getLocation\<close> for alice waits on the rejected promise and throws, and changes nothing.
\<close>

lemma rejected_registration_is_permanent:
  assumes "\<forall>ev \<in> set es. \<forall>cached now. ev \<noteq> LoadCache cached now"
  shows "getLocation ''alice'' now
           (run es (run [RateLimitInfo 2000 1000000, GetLocation ''alice'' 1001000] initialState))
         = (AwaitPending 0,
            run es (run [RateLimitInfo 2000 1000000, GetLocation ''alice'' 1001000] initialState))
         \<and> (\<exists>e. afterAwaitPending ''alice'' 0 now
              (run es (run [RateLimitInfo 2000 1000000, GetLocation ''alice'' 1001000]
                 initialState)) = Some (Inl e))"
proof -
  have "stuck ''alice'' 0
      (run es (run [RateLimitInfo 2000 1000000, GetLocation ''alice'' 1001000] initialState))"
    using stuck_after_purge assms by (rule stuck_run)
  then show ?thesis using stuck_getLocation_same stuck_throws by blast
qed

subsection \<open>A timeout that fires late\<close>

text \<open>
  The timeout of a request is never cleared, and it deletes the registration of its
  screen name whatever promise is registered by then. Alice's first request is answered
  rate-limited after one second (nothing is cached) and she is asked for again; the
  second request is in flight when the timeout of the first fires and removes the
  registration of the second. A third call then queues another task: two unsettled
  promises for one key.
\<close>

lemma late_timeout_unregisters_newer_request:
  "pendingLocationRequests
     (run [GetLocation ''alice'' 5000, LocationResponse 0 None True 6000 True,
           RequestSettled 6000, GetLocation ''alice'' 7000, PacingElapsed 8500]
        initialState) ''alice'' = Some 1 \<and>
   pendingLocationRequests
     (run [GetLocation ''alice'' 5000, LocationResponse 0 None True 6000 True,
           RequestSettled 6000, GetLocation ''alice'' 7000, PacingElapsed 8500,
           RequestTimeout 0] initialState) ''alice'' = None \<and>
   promises
     (run [GetLocation ''alice'' 5000, LocationResponse 0 None True 6000 True,
           RequestSettled 6000, GetLocation ''alice'' 7000, PacingElapsed 8500,
           RequestTimeout 0] initialState) = [Resolved None, Pending] \<and>
   fst (getLocation ''alice'' 15500
     (run [GetLocation ''alice'' 5000, LocationResponse 0 None True 6000 True,
           RequestSettled 6000, GetLocation ''alice'' 7000, PacingElapsed 8500,
           RequestTimeout 0] initialState)) = AwaitOwn 2 \<and>
   promises
     (run [GetLocation ''alice'' 5000, LocationResponse 0 None True 6000 True,
           RequestSettled 6000, GetLocation ''alice'' 7000, PacingElapsed 8500,
           RequestTimeout 0, GetLocation ''alice'' 15500] initialState)
     = [Resolved None, Pending, Pending] \<and>
   requestQueue
     (run [GetLocation ''alice'' 5000, LocationResponse 0 None True 6000 True,
           RequestSettled 6000, GetLocation ''alice'' 7000, PacingElapsed 8500,
           RequestTimeout 0, GetLocation ''alice'' 15500] initialState)
     = [(''alice'', 2)] \<and>
   drainState
     (run [GetLocation ''alice'' 5000, LocationResponse 0 None True 6000 True,
           RequestSettled 6000, GetLocation ''alice'' 7000, PacingElapsed 8500,
           RequestTimeout 0, GetLocation ''alice'' 15500] initialState)
     = AwaitRequest ''alice'' 1 1"
  by (simp add: exec_simps)


section \<open>A key that was not cached, asked for again\<close>

text \<open>
  C4 fails on the code in its conclusion. Nothing is written to the cache, as shown above,
  but the key does not remain retryable. Alice's request is in flight when a throttling
  signal opens a window until second 2000; her answer comes back flagged as rate-limited
  (first run), or never comes and the request times out (second run). Every timer fires
  when due. In both runs she has no cache entry and no registration afterwards. She is
  asked for again at second 16, inside the window: the new task is rejected by the purge
  before its promise is registered, the rejected promise stays registered, and nothing is
  dispatched. A call at second 3000, after the window has lapsed, still waits on that
  promise and throws \<open>Rate limited\<close>; the only request ever made for her is the first.
\<close>

theorem uncached_key_not_retryable:
  "locationCache
     (run [GetLocation ''alice'' 5000, RateLimitInfo 2000 6000,
           LocationResponse 0 None True 6000 True, RequestSettled 6000,
           ProcessQueueTimer 6200, RequestTimeout 0] initialState) ''alice'' = None \<and>
   pendingLocationRequests
     (run [GetLocation ''alice'' 5000, RateLimitInfo 2000 6000,
           LocationResponse 0 None True 6000 True, RequestSettled 6000,
           ProcessQueueTimer 6200, RequestTimeout 0] initialState) ''alice'' = None \<and>
   isRateLimited 16000
     (run [GetLocation ''alice'' 5000, RateLimitInfo 2000 6000,
           LocationResponse 0 None True 6000 True, RequestSettled 6000,
           ProcessQueueTimer 6200, RequestTimeout 0] initialState) \<and>
   fst (getLocation ''alice'' 16000
     (run [GetLocation ''alice'' 5000, RateLimitInfo 2000 6000,
           LocationResponse 0 None True 6000 True, RequestSettled 6000,
           ProcessQueueTimer 6200, RequestTimeout 0] initialState)) = AwaitOwn 1 \<and>
   promises
     (run [GetLocation ''alice'' 5000, RateLimitInfo 2000 6000,
           LocationResponse 0 None True 6000 True, RequestSettled 6000,
           ProcessQueueTimer 6200, RequestTimeout 0,
           GetLocation ''alice'' 16000, ProcessQueueTimer 76000] initialState)
     = [Resolved None, Rejected ''Rate limited''] \<and>
   pendingLocationRequests
     (run [GetLocation ''alice'' 5000, RateLimitInfo 2000 6000,
           LocationResponse 0 None True 6000 True, RequestSettled 6000,
           ProcessQueueTimer 6200, RequestTimeout 0,
           GetLocation ''alice'' 16000, ProcessQueueTimer 76000] initialState) ''alice'' = Some 1 \<and>
   \<not> isRateLimited 3000000
     (run [GetLocation ''alice'' 5000, RateLimitInfo 2000 6000,
           LocationResponse 0 None True 6000 True, RequestSettled 6000,
           ProcessQueueTimer 6200, RequestTimeout 0,
           GetLocation ''alice'' 16000, ProcessQueueTimer 76000] initialState) \<and>
   fst (getLocation ''alice'' 3000000
     (run [GetLocation ''alice'' 5000, RateLimitInfo 2000 6000,
           LocationResponse 0 None True 6000 True, RequestSettled 6000,
           ProcessQueueTimer 6200, RequestTimeout 0,
           GetLocation ''alice'' 16000, ProcessQueueTimer 76000] initialState)) = AwaitPending 1 \<and>
   afterAwaitPending ''alice'' 1 3000000
     (run [GetLocation ''alice'' 5000, RateLimitInfo 2000 6000,
           LocationResponse 0 None True 6000 True, RequestSettled 6000,
           ProcessQueueTimer 6200, RequestTimeout 0,
           GetLocation ''alice'' 16000, ProcessQueueTimer 76000,
           GetLocation ''alice'' 3000000] initialState)
     = Some (Inl ''Rate limited'') \<and>
   map reqScreenName (requests
     (run [GetLocation ''alice'' 5000, RateLimitInfo 2000 6000,
           LocationResponse 0 None True 6000 True, RequestSettled 6000,
           ProcessQueueTimer 6200, RequestTimeout 0,
           GetLocation ''alice'' 16000, ProcessQueueTimer 76000,
           GetLocation ''alice'' 3000000] initialState)) = [''alice''] \<and>
   locationCache
     (run [GetLocation ''alice'' 5000, RateLimitInfo 2000 6000,
           RequestTimeout 0, RequestSettled 15000, ProcessQueueTimer 15200] initialState) ''alice'' = None \<and>
   pendingLocationRequests
     (run [GetLocation ''alice'' 5000, RateLimitInfo 2000 6000,
           RequestTimeout 0, RequestSettled 15000, ProcessQueueTimer 15200] initialState) ''alice'' = None \<and>
   isRateLimited 16000
     (run [GetLocation ''alice'' 5000, RateLimitInfo 2000 6000,
           RequestTimeout 0, RequestSettled 15000, ProcessQueueTimer 15200] initialState) \<and>
   fst (getLocation ''alice'' 16000
     (run [GetLocation ''alice'' 5000, RateLimitInfo 2000 6000,
           RequestTimeout 0, RequestSettled 15000, ProcessQueueTimer 15200] initialState)) = AwaitOwn 1 \<and>
   promises
     (run [GetLocation ''alice'' 5000, RateLimitInfo 2000 6000,
           RequestTimeout 0, RequestSettled 15000, ProcessQueueTimer 15200,
           GetLocation ''alice'' 16000, ProcessQueueTimer 76000] initialState)
     = [Resolved None, Rejected ''Rate limited''] \<and>
   pendingLocationRequests
     (run [GetLocation ''alice'' 5000, RateLimitInfo 2000 6000,
           RequestTimeout 0, RequestSettled 15000, ProcessQueueTimer 15200,
           GetLocation ''alice'' 16000, ProcessQueueTimer 76000] initialState) ''alice'' = Some 1 \<and>
   \<not> isRateLimited 3000000
     (run [GetLocation ''alice'' 5000, RateLimitInfo 2000 6000,
           RequestTimeout 0, RequestSettled 15000, ProcessQueueTimer 15200,
           GetLocation ''alice'' 16000, ProcessQueueTimer 76000] initialState) \<and>
   fst (getLocation ''alice'' 3000000
     (run [GetLocation ''alice'' 5000, RateLimitInfo 2000 6000,
           RequestTimeout 0, RequestSettled 15000, ProcessQueueTimer 15200,
           GetLocation ''alice'' 16000, ProcessQueueTimer 76000] initialState)) = AwaitPending 1 \<and>
   afterAwaitPending ''alice'' 1 3000000
     (run [GetLocation ''alice'' 5000, RateLimitInfo 2000 6000,
           RequestTimeout 0, RequestSettled 15000, ProcessQueueTimer 15200,
           GetLocation ''alice'' 16000, ProcessQueueTimer 76000,
           GetLocation ''alice'' 3000000] initialState)
     = Some (Inl ''Rate limited'') \<and>
   map reqScreenName (requests
     (run [GetLocation ''alice'' 5000, RateLimitInfo 2000 6000,
           RequestTimeout 0, RequestSettled 15000, ProcessQueueTimer 15200,
           GetLocation ''alice'' 16000, ProcessQueueTimer 76000,
           GetLocation ''alice'' 3000000] initialState)) = [''alice'']"
  by (simp add: exec_simps afterAwaitPending_def)

section \<open>The window across a run\<close>











text \<open>
  What the next statement leaves out: the resumption after an awaited request resets
  \<open>consecutiveRateLimits\<close> on any answer, also on one flagged as rate-limited and on a
  timeout, while the window stays open. After two signals and such an answer the counter
  is \<open>0\<close> again, and a third signal sets a window of 308 where the second had set 607.
\<close>

lemma counter_reset_inside_window:
  "windowTrace [GetLocation ''alice'' 5000, RateLimitInfo 0 6000, RateLimitInfo 0 7000,
                LocationResponse 0 None True 7000 True, RequestSettled 7000,
                RateLimitInfo 0 8000] initialState = [306, 607, 308] \<and>
   consecutiveRateLimits
     (run [GetLocation ''alice'' 5000, RateLimitInfo 0 6000, RateLimitInfo 0 7000,
           LocationResponse 0 None True 7000 True, RequestSettled 7000] initialState) = 0 \<and>
   isRateLimited 7000
     (run [GetLocation ''alice'' 5000, RateLimitInfo 0 6000, RateLimitInfo 0 7000,
           LocationResponse 0 None True 7000 True, RequestSettled 7000] initialState)"
  by (simp add: exec_simps)



end
